(* ===== verification/Prelude.thy ===== *)
theory Prelude
  imports Main "HOL-Library.Char_ord" "HOL-Library.List_Lexorder" "HOL-Library.Sublist"
begin

text \<open>
  Shared vocabulary of the development: the JavaScript string primitives the
  sources call (\<open>toLowerCase\<close>, \<open>trim\<close>, the \<open>\s\<close> class of regular expressions,
  \<open>padStart\<close>, \<open>parseInt\<close>, \<open>includes\<close>, number-to-string conversion) and the
  lemmas about them that the component theories share.

  A JavaScript string is a sequence of UTF-16 code units; the model reads an
  Isabelle \<open>char\<close> as the code point of its byte value, that is, it covers the
  Latin-1 range U+0000..U+00FF exactly. Within that range \<open>\s\<close> and \<open>trim\<close> agree
  on the white-space set (tab, LF, VT, FF, CR, space, NBSP) and \<open>toLowerCase\<close>
  maps A..Z and the Latin-1 capitals U+00C0..U+00DE except U+00D7 down by 32.
\<close>

named_theorems js_eval "equations that let simp evaluate the string model on literals"
named_theorems js_class "character-class facts of the string model"

declare char_of_def [js_eval] bit_simps [js_eval] Let_def [js_eval]

abbreviation code :: "char \<Rightarrow> nat" where
  "code c \<equiv> of_char c"

subsection \<open>Character classes\<close>

definition js_is_space :: "char \<Rightarrow> bool" where
  "js_is_space c \<longleftrightarrow> (9 \<le> code c \<and> code c \<le> 13) \<or> code c = 32 \<or> code c = 160"

definition is_lower_alpha :: "char \<Rightarrow> bool" where
  "is_lower_alpha c \<longleftrightarrow> 97 \<le> code c \<and> code c \<le> 122"

definition is_upper_alpha :: "char \<Rightarrow> bool" where
  "is_upper_alpha c \<longleftrightarrow> 65 \<le> code c \<and> code c \<le> 90"

definition is_digit :: "char \<Rightarrow> bool" where
  "is_digit c \<longleftrightarrow> 48 \<le> code c \<and> code c \<le> 57"

definition is_latin1_upper :: "char \<Rightarrow> bool" where
  "is_latin1_upper c \<longleftrightarrow> 192 \<le> code c \<and> code c \<le> 222 \<and> code c \<noteq> 215"

definition js_lower_char :: "char \<Rightarrow> char" where
  "js_lower_char c =
     (if is_upper_alpha c \<or> is_latin1_upper c then char_of (code c + 32) else c)"

declare js_is_space_def [js_eval] is_lower_alpha_def [js_eval] is_upper_alpha_def [js_eval]
  is_digit_def [js_eval] is_latin1_upper_def [js_eval] js_lower_char_def [js_eval]

subsection \<open>String primitives\<close>

text \<open>\<open>String.prototype.toLowerCase\<close>: character by character in this range.\<close>

definition js_toLowerCase :: "string \<Rightarrow> string" where
  "js_toLowerCase s = map js_lower_char s"

text \<open>\<open>String.prototype.trim\<close>: white space removed from both ends.\<close>

definition js_trim :: "string \<Rightarrow> string" where
  "js_trim s = rev (dropWhile js_is_space (rev (dropWhile js_is_space s)))"

text \<open>\<open>String.prototype.padStart(n, c)\<close> with a one-character filler.\<close>

definition pad_start :: "nat \<Rightarrow> char \<Rightarrow> string \<Rightarrow> string" where
  "pad_start n c s = replicate (n - length s) c @ s"

text \<open>\<open>String.prototype.includes\<close>.\<close>

definition js_includes :: "string \<Rightarrow> string \<Rightarrow> bool" where
  "js_includes s sub \<longleftrightarrow> sublist sub s"

text \<open>Decimal rendering of a non-negative integer (\<open>Number.prototype.toString\<close>).\<close>

fun show_nat :: "nat \<Rightarrow> string" where
  "show_nat n =
     (if n < 10 then [char_of (48 + n)] else show_nat (n div 10) @ [char_of (48 + n mod 10)])"

definition show_int :: "int \<Rightarrow> string" where
  "show_int i = (if i < 0 then CHR ''-'' # show_nat (nat (- i)) else show_nat (nat i))"

text \<open>
  A JavaScript number that may be \<open>NaN\<close> (\<open>None\<close>), rendered by a template
  literal.
\<close>

definition js_num_str :: "int option \<Rightarrow> string" where
  "js_num_str x = (case x of None \<Rightarrow> ''NaN'' | Some i \<Rightarrow> show_int i)"

text \<open>
  \<open>parseInt(s)\<close> without radix: leading white space skipped, an optional sign,
  then the longest run of decimal digits; no digit gives \<open>NaN\<close>. (The
  \<open>0x\<close> prefix, which switches to base 16, is not modelled: the only strings
  the sources parse are the hour values \<open>1\<close>..\<open>12\<close>.)
\<close>

definition digits_val :: "string \<Rightarrow> nat" where
  "digits_val ds = foldl (\<lambda>acc d. 10 * acc + (code d - 48)) 0 ds"

definition js_parseInt :: "string \<Rightarrow> int option" where
  "js_parseInt s =
     (let s1 = dropWhile js_is_space s;
          (neg, s2) = (case s1 of
                         c # r \<Rightarrow> (if c = CHR ''-'' then (True, r)
                                  else if c = CHR ''+'' then (False, r) else (False, s1))
                       | [] \<Rightarrow> (False, s1));
          ds = takeWhile is_digit s2
      in if ds = [] then None
         else Some (if neg then - int (digits_val ds) else int (digits_val ds)))"

text \<open>Settling the \<open>i\<close>-th of several requests in flight: it leaves the list.\<close>

definition remove_nth :: "nat \<Rightarrow> 'a list \<Rightarrow> 'a list" where
  "remove_nth i xs = take i xs @ drop (Suc i) xs"

declare remove_nth_def [js_eval]
declare js_toLowerCase_def [js_eval] js_trim_def [js_eval] pad_start_def [js_eval]
  js_includes_def [js_eval] show_int_def [js_eval] js_num_str_def [js_eval]
  digits_val_def [js_eval] js_parseInt_def [js_eval]

declare show_nat.simps [simp del] upt_conv_Cons [js_eval] upt_conv_Nil [js_eval]
  sublist_code [js_eval] prefix_code [js_eval]

subsection \<open>Lemmas on the character classes\<close>

lemma code_char_of_small [simp]: "n < 256 \<Longrightarrow> code (char_of n) = n"
  by simp

lemma js_lower_char_code:
  "is_upper_alpha c \<or> is_latin1_upper c \<Longrightarrow> code (js_lower_char c) = code c + 32"
  by (auto simp: js_lower_char_def is_upper_alpha_def is_latin1_upper_def)

lemma js_lower_char_id [simp]:
  "\<not> is_upper_alpha c \<Longrightarrow> \<not> is_latin1_upper c \<Longrightarrow> js_lower_char c = c"
  by (simp add: js_lower_char_def)

lemma js_is_space_lower [js_class, simp]: "js_is_space (js_lower_char c) = js_is_space c"
proof (cases "is_upper_alpha c \<or> is_latin1_upper c")
  case True
  then have "code (js_lower_char c) = code c + 32" by (rule js_lower_char_code)
  with True show ?thesis
    by (auto simp: js_is_space_def is_upper_alpha_def is_latin1_upper_def)
next
  case False
  then show ?thesis by simp
qed

lemma not_upper_if_lower [js_class]: "is_lower_alpha c \<Longrightarrow> \<not> is_upper_alpha c \<and> \<not> is_latin1_upper c"
  by (simp add: is_lower_alpha_def is_upper_alpha_def is_latin1_upper_def)

lemma not_upper_if_digit [js_class]: "is_digit c \<Longrightarrow> \<not> is_upper_alpha c \<and> \<not> is_latin1_upper c"
  by (simp add: is_digit_def is_upper_alpha_def is_latin1_upper_def)

lemma not_upper_if_space [js_class]: "js_is_space c \<Longrightarrow> \<not> is_upper_alpha c \<and> \<not> is_latin1_upper c"
  by (auto simp: js_is_space_def is_upper_alpha_def is_latin1_upper_def)

lemma hyphen_classes [js_class, simp]:
  "\<not> js_is_space CHR ''-''" "\<not> is_upper_alpha CHR ''-''" "\<not> is_latin1_upper CHR ''-''"
  "\<not> is_lower_alpha CHR ''-''" "\<not> is_digit CHR ''-''"
  by (simp_all add: js_eval)

subsection \<open>Lemmas on the string primitives\<close>

lemma js_trim_map:
  assumes "\<And>c. js_is_space (f c) = js_is_space c"
  shows "js_trim (map f s) = map f (js_trim s)"
proof -
  have "js_is_space \<circ> f = js_is_space" using assms by (simp add: fun_eq_iff)
  then show ?thesis by (simp add: js_trim_def dropWhile_map rev_map)
qed

text \<open>Lower-casing and trimming commute on every string of the model.\<close>

lemma js_trim_toLowerCase: "js_trim (js_toLowerCase s) = js_toLowerCase (js_trim s)"
  unfolding js_toLowerCase_def by (rule js_trim_map) simp

lemma dropWhile_none: "\<forall>x\<in>set xs. \<not> P x \<Longrightarrow> dropWhile P xs = xs"
  by (cases xs) auto

lemma js_trim_no_space:
  "\<forall>c\<in>set s. \<not> js_is_space c \<Longrightarrow> js_trim s = s"
  by (simp add: js_trim_def dropWhile_none)

lemma js_toLowerCase_id:
  "\<forall>c\<in>set s. \<not> is_upper_alpha c \<and> \<not> is_latin1_upper c \<Longrightarrow> js_toLowerCase s = s"
  by (induction s) (auto simp: js_toLowerCase_def)

lemma set_js_trim: "set (js_trim s) \<subseteq> set s"
proof
  fix x assume "x \<in> set (js_trim s)"
  then have "x \<in> set (dropWhile js_is_space (rev (dropWhile js_is_space s)))"
    by (simp add: js_trim_def)
  then show "x \<in> set s" by (auto dest!: set_dropWhileD)
qed

text \<open>\<open>toLowerCase\<close> leaves no capital letter of the model's range.\<close>

lemma js_lower_char_not_upper [js_class]:
  "\<not> is_upper_alpha (js_lower_char c) \<and> \<not> is_latin1_upper (js_lower_char c)"
proof (cases "is_upper_alpha c \<or> is_latin1_upper c")
  case True
  then have "code (js_lower_char c) = code c + 32" by (rule js_lower_char_code)
  with True show ?thesis by (auto simp: is_upper_alpha_def is_latin1_upper_def)
next
  case False
  then show ?thesis by simp
qed

lemma js_trim_ends:
  "js_trim s = [] \<or> (\<not> js_is_space (hd (js_trim s)) \<and> \<not> js_is_space (last (js_trim s)))"
proof -
  define u where "u = dropWhile js_is_space s"
  define w where "w = dropWhile js_is_space (rev u)"
  have t: "js_trim s = rev w" by (simp add: js_trim_def u_def w_def)
  show ?thesis
  proof (cases "w = []")
    case False
    have "\<not> js_is_space (hd w)" using False by (simp add: w_def hd_dropWhile)
    moreover have "last w = last (rev u)"
      using False by (simp add: w_def dropWhile_eq_drop last_drop)
    moreover have "u \<noteq> []" using False by (auto simp: w_def)
    then have "\<not> js_is_space (hd u)" by (simp add: u_def hd_dropWhile)
    ultimately show ?thesis using False by (simp add: t hd_rev last_rev)
  qed (simp add: t)
qed

text \<open>Trimming twice is trimming once.\<close>

lemma js_trim_idem [simp]: "js_trim (js_trim s) = js_trim s"
proof -
  define t where "t = js_trim s"
  have "t = [] \<or> (\<not> js_is_space (hd t) \<and> \<not> js_is_space (last t))"
    unfolding t_def by (rule js_trim_ends)
  then have d1: "dropWhile js_is_space t = t" and d2: "dropWhile js_is_space (rev t) = rev t"
    by (auto simp: dropWhile_eq_self_iff hd_rev)
  have "js_trim t = rev (dropWhile js_is_space (rev (dropWhile js_is_space t)))" by (rule js_trim_def)
  also have "\<dots> = t" by (simp only: d1 d2 rev_rev_ident)
  finally show ?thesis by (simp only: t_def)
qed

lemma set_remove_nth: "set (remove_nth i xs) \<subseteq> set xs"
  by (auto simp: remove_nth_def dest: in_set_takeD in_set_dropD)

lemma length_remove_nth [simp]: "i < length xs \<Longrightarrow> length (remove_nth i xs) = length xs - 1"
  by (simp add: remove_nth_def)

subsection \<open>Number rendering and parsing\<close>

lemma show_nat_small [js_eval]: "n < 10 \<Longrightarrow> show_nat n = [char_of (48 + n)]"
  by (simp add: show_nat.simps)

lemma show_nat_big [js_eval]: "\<not> n < 10 \<Longrightarrow> show_nat n = show_nat (n div 10) @ [char_of (48 + n mod 10)]"
  by (simp add: show_nat.simps [of n])

lemma is_digit_char_of: "(d::nat) < 10 \<Longrightarrow> is_digit (char_of (48 + d))"
  by (simp add: is_digit_def)

lemma show_nat_digits: "list_all is_digit (show_nat n)"
proof (induction n rule: show_nat.induct)
  case (1 n)
  then show ?case
    by (cases "n < 10") (simp_all add: show_nat_small show_nat_big is_digit_char_of)
qed

lemma show_nat_not_Nil [simp]: "show_nat n \<noteq> []"
  by (cases "n < 10") (simp_all add: show_nat_small show_nat_big)

lemma digits_val_snoc: "digits_val (ds @ [d]) = 10 * digits_val ds + (code d - 48)"
  by (simp add: digits_val_def)

lemma digits_val_show_nat: "digits_val (show_nat n) = n"
proof (induction n rule: show_nat.induct)
  case (1 n)
  show ?case
  proof (cases "n < 10")
    case True
    then show ?thesis by (simp add: show_nat_small digits_val_def)
  next
    case False
    with "1.IH" have "digits_val (show_nat (n div 10)) = n div 10" by simp
    with False show ?thesis by (simp add: show_nat_big digits_val_snoc)
  qed
qed

lemma digit_not_space_sign [js_class]:
  "is_digit c \<Longrightarrow> \<not> js_is_space c \<and> c \<noteq> CHR ''-'' \<and> c \<noteq> CHR ''+''"
  by (auto simp: is_digit_def js_is_space_def)

text \<open>\<open>parseInt\<close> reads back what \<open>toString\<close> writes.\<close>

lemma js_parseInt_digits:
  assumes "list_all is_digit ds" and "ds \<noteq> []"
  shows "js_parseInt ds = Some (int (digits_val ds))"
proof -
  obtain c cs where ds: "ds = c # cs" using assms(2) by (cases ds) auto
  have all: "\<forall>x\<in>set ds. is_digit x" using assms(1) by (simp add: list_all_iff)
  then have "dropWhile js_is_space ds = ds"
    by (intro dropWhile_none) (auto dest: digit_not_space_sign)
  moreover have "takeWhile is_digit ds = ds" using all by simp
  moreover have "c \<noteq> CHR ''-'' \<and> c \<noteq> CHR ''+''"
    using all ds by (auto dest: digit_not_space_sign)
  ultimately show ?thesis using ds by (simp add: js_parseInt_def)
qed

lemma js_parseInt_show_nat [simp]: "js_parseInt (show_nat n) = Some (int n)"
  using js_parseInt_digits [OF show_nat_digits show_nat_not_Nil] by (simp add: digits_val_show_nat)

lemma show_int_nat [simp]: "show_int (int n) = show_nat n"
  by (simp add: show_int_def)

subsection \<open>Substrings\<close>

lemma prefix_before_mark:
  "c \<notin> set w \<Longrightarrow> prefix w (xs @ c # ys) \<Longrightarrow> prefix w xs"
proof (induction xs arbitrary: w)
  case Nil
  then show ?case by (cases w) auto
next
  case (Cons x xs)
  then show ?case by (cases w) auto
qed

text \<open>A string without the character \<open>c\<close> occurs on one side of every \<open>c\<close>.\<close>

lemma sublist_split_at:
  "c \<notin> set w \<Longrightarrow> sublist w (xs @ c # ys) \<Longrightarrow> sublist w xs \<or> sublist w ys"
proof (induction xs)
  case Nil
  then have "prefix w (c # ys) \<or> sublist w ys" by (simp add: sublist_Cons_right)
  with Nil.prems(1) show ?case by (cases w) auto
next
  case (Cons x xs)
  then have "prefix w (x # xs @ c # ys) \<or> sublist w (xs @ c # ys)"
    by (simp add: sublist_Cons_right)
  then show ?case
  proof
    assume "prefix w (x # xs @ c # ys)"
    then have "prefix w ((x # xs) @ c # ys)" by simp
    with Cons.prems(1) have "prefix w (x # xs)" by (rule prefix_before_mark)
    then show ?thesis by (simp add: sublist_Cons_right)
  next
    assume "sublist w (xs @ c # ys)"
    with Cons.IH Cons.prems(1) show ?thesis by (auto simp: sublist_Cons_right)
  qed
qed

lemma sublist_within: "sublist w t \<Longrightarrow> sublist w (xs @ t @ ys)"
proof -
  assume "sublist w t"
  then obtain ps ss where "t = ps @ w @ ss" by (auto simp: sublist_def)
  then have "xs @ t @ ys = (xs @ ps) @ w @ (ss @ ys)" by simp
  then show ?thesis by (metis sublist_appendI)
qed

end
