(* ===== verification/Slug.thy ===== *)
theory Slug
  imports Prelude
begin

text \<open>
  SlugDeriver: \<open>generateSlug\<close> of \<^verbatim>\<open>src/app/addEvent/page.tsx\<close> (lines 211-218).
  The source chains five string operations:
  \<^verbatim>\<open>title.toLowerCase().trim()
       .replace(/[^a-z0-9\s-]/g, '').replace(/\s+/g, '-').replace(/-+/g, '-')\<close>
  The first global replacement deletes every character outside the class; the
  other two replace every maximal run of a class by one hyphen, which is
  \<open>replace_runs\<close> below. The theory proves the shape of every slug (its
  alphabet, no doubled hyphen), idempotence, and that every non-empty slug
  passes the slug field's schema.
\<close>

subsection \<open>Definitions\<close>

text \<open>The class \<open>[a-z0-9\s-]\<close> of the first replacement.\<close>

definition slug_keep :: "char \<Rightarrow> bool" where
  "slug_keep c \<longleftrightarrow> is_lower_alpha c \<or> is_digit c \<or> js_is_space c \<or> c = CHR ''-''"

definition remove_special :: "string \<Rightarrow> string" where
  "remove_special s = filter slug_keep s"

text \<open>\<open>s.replace(/P+/g, r)\<close>: every maximal run of characters satisfying \<open>P\<close> becomes \<open>r\<close>.\<close>

function replace_runs :: "(char \<Rightarrow> bool) \<Rightarrow> char \<Rightarrow> string \<Rightarrow> string" where
  "replace_runs P r [] = []"
| "replace_runs P r (c # cs) =
     (if P c then r # replace_runs P r (dropWhile P cs) else c # replace_runs P r cs)"
  by pat_completeness auto
termination
  by (relation "measure (\<lambda>(P, r, cs). length cs)") (auto simp: le_imp_less_Suc length_dropWhile_le)

definition is_hyphen :: "char \<Rightarrow> bool" where
  "is_hyphen c \<longleftrightarrow> c = CHR ''-''"

definition generateSlug :: "string \<Rightarrow> string" where
  "generateSlug title =
     replace_runs is_hyphen CHR ''-''
       (replace_runs js_is_space CHR ''-''
         (remove_special (js_trim (js_toLowerCase title))))"

text \<open>The alphabet of a slug, \<open>[a-z0-9-]\<close>, and "no two hyphens in a row".\<close>

definition slug_char :: "char \<Rightarrow> bool" where
  "slug_char c \<longleftrightarrow> is_lower_alpha c \<or> is_digit c \<or> c = CHR ''-''"

fun no_adjacent :: "(char \<Rightarrow> bool) \<Rightarrow> string \<Rightarrow> bool" where
  "no_adjacent P (a # b # cs) = (\<not> (P a \<and> P b) \<and> no_adjacent P (b # cs))"
| "no_adjacent P _ = True"

definition well_formed_slug :: "string \<Rightarrow> bool" where
  "well_formed_slug s \<longleftrightarrow> list_all slug_char s \<and> no_adjacent is_hyphen s"

declare slug_keep_def [js_eval] remove_special_def [js_eval] is_hyphen_def [js_eval]
  generateSlug_def [js_eval] slug_char_def [js_eval]

subsection \<open>The run replacement\<close>

lemma replace_runs_chars:
  "c \<in> set (replace_runs P r s) \<Longrightarrow> c = r \<or> (c \<in> set s \<and> \<not> P c)"
proof (induction P r s rule: replace_runs.induct)
  case (2 P r c cs)
  then show ?case by (auto split: if_splits dest: set_dropWhileD)
qed simp

lemma replace_runs_hd:
  "replace_runs P r s = x # xs \<Longrightarrow> (s \<noteq> [] \<and> P (hd s) \<and> x = r) \<or> (s \<noteq> [] \<and> x = hd s \<and> \<not> P x)"
  by (cases s) (auto split: if_splits)

lemma replace_runs_no_adjacent:
  assumes "P r"
  shows "no_adjacent P (replace_runs P r s)"
proof (induction P r s rule: replace_runs.induct)
  case (2 P r c cs)
  show ?case
  proof (cases "P c")
    case True
    have "no_adjacent P (r # replace_runs P r (dropWhile P cs))"
    proof (cases "replace_runs P r (dropWhile P cs)")
      case (Cons x xs)
      then have "\<not> P x"
        using replace_runs_hd [OF Cons] hd_dropWhile [of P cs] by fastforce
      with Cons True "2.IH"(1) show ?thesis by simp
    qed simp
    with True show ?thesis by simp
  next
    case False
    with "2.IH"(2) show ?thesis
      by (cases "replace_runs P r cs") simp_all
  qed
qed simp

text \<open>A string without runs to collapse is left as it is.\<close>

lemma replace_runs_id:
  "\<forall>c\<in>set s. P c \<longrightarrow> c = r \<Longrightarrow> no_adjacent P s \<Longrightarrow> replace_runs P r s = s"
proof (induction P r s rule: replace_runs.induct)
  case (2 P r c cs)
  show ?case
  proof (cases "P c")
    case True
    have "dropWhile P cs = cs"
      using "2.prems"(2) True by (cases cs) auto
    moreover have "no_adjacent P cs"
      using "2.prems"(2) by (cases cs) auto
    ultimately show ?thesis
      using True "2.IH"(1) "2.prems"(1) by simp
  next
    case False
    moreover have "no_adjacent P cs"
      using "2.prems"(2) by (cases cs) auto
    ultimately show ?thesis
      using "2.IH"(2) "2.prems"(1) by simp
  qed
qed simp

lemma replace_runs_none:
  "\<forall>c\<in>set s. \<not> P c \<Longrightarrow> replace_runs P r s = s"
  by (induction P r s rule: replace_runs.induct) auto

lemma no_adjacent_none: "\<forall>c\<in>set s. \<not> P c \<Longrightarrow> no_adjacent P s"
  by (induction P s rule: no_adjacent.induct) auto

subsection \<open>Properties of generateSlug\<close>

lemma slug_char_classes [js_class]:
  "slug_char c \<Longrightarrow> \<not> js_is_space c \<and> \<not> is_upper_alpha c \<and> \<not> is_latin1_upper c \<and> slug_keep c"
  by (auto simp: slug_char_def slug_keep_def js_is_space_def is_lower_alpha_def
      is_digit_def is_upper_alpha_def is_latin1_upper_def)

lemma generateSlug_chars: "c \<in> set (generateSlug t) \<Longrightarrow> slug_char c"
proof -
  assume "c \<in> set (generateSlug t)"
  then have "c = CHR ''-'' \<or> c \<in> set (replace_runs js_is_space CHR ''-''
               (remove_special (js_trim (js_toLowerCase t))))"
    unfolding generateSlug_def by (blast dest: replace_runs_chars)
  then have "c = CHR ''-'' \<or> (c \<in> set (remove_special (js_trim (js_toLowerCase t))) \<and> \<not> js_is_space c)"
    by (blast dest: replace_runs_chars)
  then show "slug_char c"
    by (auto simp: remove_special_def slug_keep_def slug_char_def)
qed

text \<open>
  Every derived slug is over \<open>[a-z0-9-]\<close> and has no doubled hyphen: the
  invariant that the slug of any title satisfies.
\<close>

lemma generateSlug_wf: "well_formed_slug (generateSlug t)"
proof -
  have "list_all slug_char (generateSlug t)"
    by (simp add: list_all_iff generateSlug_chars)
  moreover have "no_adjacent is_hyphen (generateSlug t)"
    unfolding generateSlug_def by (rule replace_runs_no_adjacent) (simp add: is_hyphen_def)
  ultimately show ?thesis by (simp add: well_formed_slug_def)
qed

text \<open>A well-formed slug is a fixed point of every stage of the pipeline.\<close>

lemma generateSlug_fixed_point: "well_formed_slug s \<Longrightarrow> generateSlug s = s"
proof -
  assume wf: "well_formed_slug s"
  then have cls: "\<forall>c\<in>set s. \<not> js_is_space c \<and> \<not> is_upper_alpha c \<and> \<not> is_latin1_upper c \<and> slug_keep c"
    by (auto simp: well_formed_slug_def list_all_iff dest: slug_char_classes)
  then have "js_toLowerCase s = s" by (simp add: js_toLowerCase_id)
  moreover have "js_trim s = s" using cls by (simp add: js_trim_no_space)
  moreover have "remove_special s = s" using cls by (simp add: remove_special_def)
  moreover have "replace_runs js_is_space CHR ''-'' s = s"
    using cls by (simp add: replace_runs_none)
  moreover have "replace_runs is_hyphen CHR ''-'' s = s"
    using wf by (intro replace_runs_id) (auto simp: well_formed_slug_def is_hyphen_def)
  ultimately show ?thesis by (simp add: generateSlug_def)
qed

subsection \<open>Claims on the slug deriver\<close>

text \<open>
  C19: slug derivation is idempotent: deriving a slug from a derived slug gives
  the same slug back, for every title string.
\<close>

theorem generateSlug_idempotent: "generateSlug (generateSlug t) = generateSlug t"
  by (rule generateSlug_fixed_point [OF generateSlug_wf])

text \<open>
  The end-to-end examples of the specification: "Happy Birthday!" gives
  "happy-birthday" and "  Multi   Space  " gives "multi-space".
\<close>

theorem generateSlug_examples:
  "generateSlug ''Happy Birthday!'' = ''happy-birthday'' \<and>
   generateSlug ''  Multi   Space  '' = ''multi-space''"
  by (simp add: js_eval)

text \<open>
  Trimming happens before the special characters are removed, so a title
  whose last word is punctuation gives a slug that ends in a hyphen:
  "Happy Birthday !" gives "happy-birthday-".
\<close>

theorem generateSlug_trailing_hyphen:
  "generateSlug ''Happy Birthday !'' = ''happy-birthday-''"
  by (simp add: js_eval)

end
