(* ===== verification/TimeCompose.thy ===== *)
theory TimeCompose
  imports Prelude
begin

text \<open>
  TimeComposer: the timestamp string that \<open>onSubmit\<close> of
  \<^verbatim>\<open>src/app/addEvent/page.tsx\<close> stores in \<open>event_date\<close> (lines 326-343), and
  the default values of the time fields computed from the clock when the page
  renders (lines 177-196). A calendar date is the picked day at local
  midnight, a \<open>cal_date\<close> record; its weekday is computed from the day count
  since 1970-01-01 (a Thursday), which is what \<open>Date.prototype.getDay\<close> reads.
  Shown here: the specification's example, the 12-hour to 24-hour conversion
  on every hour (including the 12 PM case that gives hour 24), the round trip
  from the clock's hour through the form fields back to the stored hour, the
  round trip of the timezone offset for whole hours and its loss of the
  minutes for the other zones, that the stored string does not sort in time
  order, and that the closed-form day count equals a plain count of days
  (years, then months, then days) on every valid date.
\<close>

subsection \<open>Calendar dates\<close>

record cal_date =
  year :: int
  month :: nat
  day :: nat

definition is_leap :: "int \<Rightarrow> bool" where
  "is_leap y \<longleftrightarrow> (4 dvd y \<and> \<not> 100 dvd y) \<or> 400 dvd y"

definition days_in_month :: "int \<Rightarrow> nat \<Rightarrow> nat" where
  "days_in_month y m =
     (if m = 2 then (if is_leap y then 29 else 28)
      else if m = 4 \<or> m = 6 \<or> m = 9 \<or> m = 11 then 30 else 31)"

definition valid_date :: "cal_date \<Rightarrow> bool" where
  "valid_date d \<longleftrightarrow> 1 \<le> month d \<and> month d \<le> 12 \<and> 1 \<le> day d \<and> day d \<le> days_in_month (year d) (month d)"

text \<open>Days since 1970-01-01 of a valid date (proleptic Gregorian calendar).\<close>

definition days_from_civil :: "cal_date \<Rightarrow> int" where
  "days_from_civil d =
     (let y = (if month d \<le> 2 then year d - 1 else year d);
          era = y div 400;
          yoe = y - era * 400;
          mp = int ((month d + 9) mod 12);
          doy = (153 * mp + 2) div 5 + int (day d) - 1;
          doe = yoe * 365 + yoe div 4 - yoe div 100 + doy
      in era * 146097 + doe - 719468)"

text \<open>\<open>getDay()\<close>: 0 is Sunday.\<close>

definition get_day :: "cal_date \<Rightarrow> nat" where
  "get_day d = nat ((days_from_civil d + 4) mod 7)"

definition weekday_names :: "string list" where
  "weekday_names = [''Sun'', ''Mon'', ''Tue'', ''Wed'', ''Thu'', ''Fri'', ''Sat'']"

definition month_names :: "string list" where
  "month_names = [''Jan'', ''Feb'', ''Mar'', ''Apr'', ''May'', ''Jun'',
                  ''Jul'', ''Aug'', ''Sep'', ''Oct'', ''Nov'', ''Dec'']"

text \<open>\<open>toLocaleString('en-US', {weekday: 'short'})\<close> and \<open>{month: 'short'}\<close>.\<close>

definition weekday_short :: "cal_date \<Rightarrow> string" where
  "weekday_short d = weekday_names ! get_day d"

definition month_short :: "cal_date \<Rightarrow> string" where
  "month_short d = month_names ! (month d - 1)"

subsection \<open>The stored timestamp (onSubmit, lines 326-343)\<close>

text \<open>
  \<^verbatim>\<open>if (eventTimeAMPM === 'PM') hr = parseInt(eventTimeHour) + 12; else hr = eventTimeHour;\<close>
  The PM branch yields a number (\<open>NaN\<close> if the hour does not parse), rendered
  by the template literal; the AM branch keeps the string.
\<close>

definition event_hr :: "string \<Rightarrow> string \<Rightarrow> string" where
  "event_hr hour ampm =
     (if ampm = ''PM'' then js_num_str (map_option (\<lambda>h. h + 12) (js_parseInt hour)) else hour)"

definition formatted_time :: "string \<Rightarrow> string \<Rightarrow> string \<Rightarrow> string" where
  "formatted_time hour mins ampm = event_hr hour ampm @ '':'' @ mins @ '':00''"

definition formatted_date :: "cal_date \<Rightarrow> string \<Rightarrow> string \<Rightarrow> string \<Rightarrow> string \<Rightarrow> string" where
  "formatted_date d hour mins ampm tz =
     weekday_short d @ '' '' @ month_short d @ '' '' @ show_nat (day d) @ '' '' @
     show_int (year d) @ '' '' @ formatted_time hour mins ampm @ '' '' @ tz"

subsection \<open>Default field values (lines 177-196)\<close>

text \<open>\<open>hourIn12 = currentHour % 12; hourIn12 = hourIn12 === 0 ? 12 : hourIn12\<close>.\<close>

definition hour_in_12 :: "nat \<Rightarrow> nat" where
  "hour_in_12 h = (if h mod 12 = 0 then 12 else h mod 12)"

definition default_ampm :: "nat \<Rightarrow> string" where
  "default_ampm h = (if 12 \<le> h then ''PM'' else ''AM'')"

definition minute_string :: "nat \<Rightarrow> string" where
  "minute_string m = pad_start 2 CHR ''0'' (show_nat m)"

text \<open>
  \<open>getTimezoneOffset\<close> of the page, from \<open>Date.prototype.getTimezoneOffset()\<close>
  (UTC minus local time, in minutes):
  \<^verbatim>\<open>`${off <= 0 ? '+' : '-'}${Math.floor(Math.abs(off / 60)).toString().padStart(2, '0')}:00`\<close>
  \<open>Math.floor(|off / 60|)\<close> is \<open>|off| div 60\<close> for an integer \<open>off\<close>.
\<close>

definition tz_offset_string :: "int \<Rightarrow> string" where
  "tz_offset_string off =
     (if off \<le> 0 then CHR ''+'' else CHR ''-'') #
     pad_start 2 CHR ''0'' (show_nat (nat \<bar>off\<bar> div 60)) @ '':00''"

declare is_leap_def [js_eval] days_in_month_def [js_eval] valid_date_def [js_eval]
  days_from_civil_def [js_eval] get_day_def [js_eval] weekday_names_def [js_eval]
  month_names_def [js_eval] weekday_short_def [js_eval] month_short_def [js_eval]
  event_hr_def [js_eval] formatted_time_def [js_eval] formatted_date_def [js_eval]
  hour_in_12_def [js_eval] default_ampm_def [js_eval] minute_string_def [js_eval]
  tz_offset_string_def [js_eval]

text \<open>
  Reader of the \<open>\<plusminus>HH:MM\<close> layout of a stored offset, in minutes east of
  UTC; it states what an offset string means, and the sources have no
  counterpart of it.
\<close>

fun tz_minutes :: "string \<Rightarrow> int option" where
  "tz_minutes [s, h1, h2, c, m1, m2] =
     (if (s = CHR ''+'' \<or> s = CHR ''-'') \<and> c = CHR '':'' \<and> list_all is_digit [h1, h2, m1, m2]
      then Some ((if s = CHR ''-'' then -1 else 1) *
                 int (60 * (10 * (code h1 - 48) + (code h2 - 48)) + 10 * (code m1 - 48) + (code m2 - 48)))
      else None)"
| "tz_minutes _ = None"

text \<open>
  A reference count of days since 1970-01-01, by plain summation: the lengths
  of the whole years between 1970 and the date's year, then the months of
  the year before the date, then the days. \<open>days_from_civil\<close> is the
  closed form of it; \<open>mar1 y\<close> and \<open>jan1 y\<close> are the terms of that closed
  form for 1 March and 1 January.
\<close>

definition year_length :: "int \<Rightarrow> int" where
  "year_length y = (if is_leap y then 366 else 365)"

definition days_before_month :: "int \<Rightarrow> nat \<Rightarrow> nat" where
  "days_before_month y m = sum_list (map (days_in_month y) [1..<m])"

definition days_before_year :: "int \<Rightarrow> int" where
  "days_before_year y =
     (if 1970 \<le> y then sum_list (map year_length [1970..y - 1])
      else - sum_list (map year_length [y..1969]))"

definition civil_days_ref :: "cal_date \<Rightarrow> int" where
  "civil_days_ref d = days_before_year (year d) + int (days_before_month (year d) (month d)) + int (day d) - 1"

definition mar1 :: "int \<Rightarrow> int" where
  "mar1 y = 365 * y + y div 4 - y div 100 + y div 400"

definition jan1 :: "int \<Rightarrow> int" where
  "jan1 y = mar1 (y - 1) + 306 - 719468"

subsection \<open>Lemmas\<close>

lemma event_hr_pm [simp]: "event_hr (show_nat n) ''PM'' = show_nat (n + 12)"
proof -
  have "show_int (int n + 12) = show_nat (n + 12)"
    using show_int_nat [of "n + 12"] by simp
  then show ?thesis by (simp add: event_hr_def js_num_str_def)
qed

lemma event_hr_not_pm [simp]: "ampm \<noteq> ''PM'' \<Longrightarrow> event_hr hour ampm = hour"
  by (simp add: event_hr_def)

lemma char_of_48: "char_of (48::nat) = CHR ''0''"
  by (simp add: char_of_def bit_simps)

lemma code_digit [simp]: "(d::nat) < 10 \<Longrightarrow> code (char_of (48 + d)) = 48 + d"
  by simp

lemma pad2_show_nat:
  assumes "k < 100"
  shows "pad_start 2 CHR ''0'' (show_nat k) = [char_of (48 + k div 10), char_of (48 + k mod 10)]"
proof (cases "k < 10")
  case True
  then show ?thesis by (simp add: show_nat_small pad_start_def char_of_48)
next
  case False
  with assms have "k div 10 < 10" by simp
  with False show ?thesis by (simp add: show_nat_big show_nat_small pad_start_def)
qed

lemma weekday_short_length: "length (weekday_short d) = 3"
proof -
  have "get_day d < 7" by (simp add: get_day_def nat_less_iff)
  then show ?thesis
    by (simp add: weekday_short_def weekday_names_def less_Suc_eq nth_Cons' numeral_eq_Suc) (auto simp: less_Suc_eq)
qed

lemma tz_minutes_digits:
  assumes "k < 100" and "s = CHR ''+'' \<or> s = CHR ''-''"
  shows "tz_minutes (s # [char_of (48 + k div 10), char_of (48 + k mod 10)] @ '':00'') =
           Some ((if s = CHR ''-'' then -1 else 1) * int (60 * k))"
proof -
  have "k div 10 < 10" "k mod 10 < (10::nat)" using assms(1) by simp_all
  then have "60 * (10 * (code (char_of (48 + k div 10)) - 48) + (code (char_of (48 + k mod 10)) - 48)) = 60 * k"
    by simp
  moreover have "list_all is_digit [char_of (48 + k div 10), char_of (48 + k mod 10), CHR ''0'', CHR ''0'']"
    using \<open>k div 10 < 10\<close> \<open>k mod 10 < 10\<close> by (simp add: is_digit_char_of is_digit_def)
  ultimately show ?thesis using assms(2) by auto
qed

lemma clock_hour_cases:
  assumes "h < 24"
  shows "hour_in_12 h = (if h = 0 then 12 else if h < 12 then h else if h = 12 then 12 else h - 12)"
proof -
  have "h < 12 \<Longrightarrow> h mod 12 = h" by simp
  moreover have "12 \<le> h \<Longrightarrow> h mod 12 = h - 12"
    using assms by (simp add: mod_if)
  ultimately show ?thesis using assms by (auto simp: hour_in_12_def)
qed

lemma tz_offset_string_digits:
  assumes "\<bar>off\<bar> < 6000"
  shows "tz_offset_string off =
           (if off \<le> 0 then CHR ''+'' else CHR ''-'') #
           [char_of (48 + (nat \<bar>off\<bar> div 60) div 10), char_of (48 + (nat \<bar>off\<bar> div 60) mod 10)] @ '':00''"
proof -
  have "nat \<bar>off\<bar> div 60 < 100" using assms by simp
  then show ?thesis by (simp add: tz_offset_string_def pad2_show_nat)
qed

subsection \<open>Claims on the time composer\<close>

text \<open>
  The specification's end-to-end example: hour 7, minute 05, PM, offset
  -05:00 on 2024-03-01 is stored as "Fri Mar 1 2024 19:05:00 -05:00".
\<close>

theorem formatted_date_example:
  "formatted_date \<lparr>year = 2024, month = 3, day = 1\<rparr> ''7'' ''05'' ''PM'' ''-05:00'' =
     ''Fri Mar 1 2024 19:05:00 -05:00''"
  by (simp add: js_eval)

text \<open>
  The PM branch adds 12 to every hour, 12 included, so 12:30 PM is stored as
  "24:30:00"; the AM branch keeps the hour, so 12:30 AM is stored as
  "12:30:00" (midnight is not mapped to 0).
\<close>

theorem formatted_time_twelve:
  "formatted_time ''12'' ''30'' ''PM'' = ''24:30:00'' \<and>
   formatted_time ''12'' ''30'' ''AM'' = ''12:30:00''"
  by (simp add: js_eval)

text \<open>
  Round trip from the clock to the stored hour: the page fills the hour and
  AM/PM fields from the current hour h (0..23); submitting them unchanged
  stores h itself for every hour except midnight (stored as 12) and noon
  (stored as 24).
\<close>

theorem clock_hour_roundtrip:
  assumes "h < 24"
  shows "event_hr (show_nat (hour_in_12 h)) (default_ampm h) =
           show_nat (if h = 0 then 12 else if h = 12 then 24 else h)"
proof (cases "h < 12")
  case True
  then have "default_ampm h = ''AM''" by (simp add: default_ampm_def)
  with True assms show ?thesis by (simp add: clock_hour_cases)
next
  case False
  then have "default_ampm h = ''PM''" by (simp add: default_ampm_def)
  with False assms show ?thesis by (simp add: clock_hour_cases)
qed

theorem clock_hour_roundtrip_witness:
  "(19::nat) < 24 \<and> event_hr (show_nat (hour_in_12 19)) (default_ampm 19) = show_nat 19"
  using clock_hour_roundtrip [of 19] by simp

text \<open>
  For a whole-hour timezone offset (JavaScript's \<open>getTimezoneOffset\<close>, minutes
  west of UTC), the default offset string reads back as the same offset
  east of UTC.
\<close>

theorem tz_offset_roundtrip:
  assumes "off mod 60 = 0" and "\<bar>off\<bar> < 6000"
  shows "tz_minutes (tz_offset_string off) = Some (- off)"
proof -
  let ?k = "nat \<bar>off\<bar> div 60"
  have k: "?k < 100" using assms(2) by simp
  have abs: "int (60 * ?k) = \<bar>off\<bar>"
    using assms(1) by (simp add: zmod_eq_0_iff abs_if) (auto simp: nat_mult_distrib)
  let ?s = "if off \<le> 0 then CHR ''+'' else CHR ''-''"
  have "tz_minutes (tz_offset_string off) =
      tz_minutes (?s # [char_of (48 + ?k div 10), char_of (48 + ?k mod 10)] @ '':00'')"
    by (simp only: tz_offset_string_digits [OF assms(2)])
  also have "\<dots> = Some ((if ?s = CHR ''-'' then -1 else 1) * int (60 * ?k))"
    by (rule tz_minutes_digits [OF k]) simp
  finally have "tz_minutes (tz_offset_string off) =
      Some ((if ?s = CHR ''-'' then -1 else 1) * int (60 * ?k))" .
  with abs show ?thesis by auto
qed

theorem tz_offset_roundtrip_witness:
  "(300::int) mod 60 = 0 \<and> \<bar>300::int\<bar> < 6000 \<and> tz_minutes (tz_offset_string 300) = Some (- 300)"
  using tz_offset_roundtrip [of 300] by simp

lemma tz_offset_minutes:
  assumes "\<bar>off\<bar> < 6000"
  shows "tz_minutes (tz_offset_string off) = Some (- sgn off * (60 * (\<bar>off\<bar> div 60)))"
proof -
  let ?k = "nat \<bar>off\<bar> div 60"
  have k: "?k < 100" using assms by simp
  let ?s = "if off \<le> 0 then CHR ''+'' else CHR ''-''"
  have "tz_minutes (tz_offset_string off) =
      tz_minutes (?s # [char_of (48 + ?k div 10), char_of (48 + ?k mod 10)] @ '':00'')"
    by (simp only: tz_offset_string_digits [OF assms])
  also have "\<dots> = Some ((if ?s = CHR ''-'' then -1 else 1) * int (60 * ?k))"
    by (rule tz_minutes_digits [OF k]) simp
  also have "int (60 * ?k) = 60 * (\<bar>off\<bar> div 60)"
    by (simp add: zdiv_int)
  finally show ?thesis by (cases "off < 0"; cases "off = 0") (auto simp: sgn_if)
qed

text \<open>
  C26: the default offset keeps whole hours only: for every offset (minutes
  west of UTC, under 100 hours) the string reads back as the offset cut to
  whole hours toward zero, so it is right exactly when the offset is a whole
  number of hours; Newfoundland (210, UTC-03:30) gets "-03:00", while the
  page's own timezone list offers "-03:30".
\<close>

theorem tz_offset_drops_minutes:
  assumes "\<bar>off\<bar> < 6000"
  shows "tz_minutes (tz_offset_string off) = Some (- sgn off * (60 * (\<bar>off\<bar> div 60))) \<and>
         (tz_minutes (tz_offset_string off) = Some (- off) \<longleftrightarrow> off mod 60 = 0)"
proof -
  have "(- sgn off * (60 * (\<bar>off\<bar> div 60)) = - off) \<longleftrightarrow> 60 * (\<bar>off\<bar> div 60) = \<bar>off\<bar>"
    by (cases "off < 0"; cases "off = 0") (auto simp: sgn_if)
  also have "\<dots> \<longleftrightarrow> \<bar>off\<bar> mod 60 = 0"
    by (metis add_0_right mod_mult_self1_is_0 mult.commute mult_div_mod_eq)
  also have "\<dots> \<longleftrightarrow> off mod 60 = 0"
    by (simp only: dvd_eq_mod_eq_0 [symmetric] dvd_abs_iff)
  finally show ?thesis using tz_offset_minutes [OF assms] by simp
qed

theorem tz_offset_drops_minutes_witness:
  "\<bar>210::int\<bar> < 6000 \<and> tz_offset_string 210 = ''-03:00'' \<and> tz_minutes (tz_offset_string 210) = Some (- 180)"
proof -
  have h: "\<bar>210::int\<bar> < 6000" by simp
  have s: "tz_offset_string 210 = ''-03:00''" by (simp add: js_eval)
  show ?thesis using h s conjunct1 [OF tz_offset_drops_minutes [OF h]] by simp
qed

text \<open>
  The stored timestamp does not sort in time order: it starts with the
  weekday, so Saturday 2 March 2024 comes after Friday 8 March 2024 in string
  order although it is six days earlier.
\<close>

theorem event_date_order_not_chronological:
  "days_from_civil \<lparr>year = 2024, month = 3, day = 2\<rparr> < days_from_civil \<lparr>year = 2024, month = 3, day = 8\<rparr> \<and>
   formatted_date \<lparr>year = 2024, month = 3, day = 8\<rparr> ''7'' ''05'' ''PM'' ''-05:00'' <
   formatted_date \<lparr>year = 2024, month = 3, day = 2\<rparr> ''7'' ''05'' ''PM'' ''-05:00''"
  by (simp add: js_eval)

lemma div_step:
  assumes "0 < (n::int)"
  shows "y div n - (y - 1) div n = (if n dvd y then 1 else 0)"
proof -
  define q r where "q = y div n" and "r = y mod n"
  have y: "y = r + q * n" and r0: "0 \<le> r" and rn: "r < n"
    using assms by (simp_all add: q_def r_def)
  show ?thesis
  proof (cases "r = 0")
    case True
    then have e: "y - 1 = (n - 1) + (q - 1) * n" using y by (simp add: algebra_simps)
    have "(y - 1) div n = ((n - 1) + (q - 1) * n) div n" by (simp only: e)
    also have "\<dots> = (q - 1) + (n - 1) div n" by (rule div_mult_self1) (use assms in simp)
    finally have "(y - 1) div n = q - 1" using assms by simp
    moreover have "n dvd y" using True by (simp add: r_def dvd_eq_mod_eq_0)
    ultimately show ?thesis by (simp add: q_def)
  next
    case False
    then have e: "y - 1 = (r - 1) + q * n" using y by simp
    have "(y - 1) div n = ((r - 1) + q * n) div n" by (simp only: e)
    also have "\<dots> = q + (r - 1) div n" by (rule div_mult_self1) (use assms in simp)
    finally have "(y - 1) div n = q" using r0 rn False by simp
    moreover have "\<not> n dvd y" using False by (simp add: r_def dvd_eq_mod_eq_0)
    ultimately show ?thesis by (simp add: q_def)
  qed
qed

lemma leap_step: "(if 4 dvd y then 1 else 0) - (if 100 dvd y then 1 else 0) + (if 400 dvd y then 1 else 0) =
    (if is_leap y then 1 else (0::int))"
proof -
  have a: "400 dvd y \<Longrightarrow> 100 dvd y" and b: "100 dvd y \<Longrightarrow> 4 dvd y"
    by (erule dvd_trans [rotated], simp)+
  show ?thesis using a b by (auto simp: is_leap_def)
qed

lemma mar1_step: "mar1 y = mar1 (y - 1) + year_length y"
proof -
  have "mar1 y - mar1 (y - 1) =
          365 + (y div 4 - (y - 1) div 4) - (y div 100 - (y - 1) div 100) + (y div 400 - (y - 1) div 400)"
    by (simp add: mar1_def algebra_simps)
  also have "\<dots> = 365 + ((if 4 dvd y then 1 else 0) - (if 100 dvd y then 1 else 0) + (if 400 dvd y then 1 else 0))"
    by (simp only: div_step zero_less_numeral)
  also have "\<dots> = year_length y"
    by (simp only: leap_step) (simp add: year_length_def)
  finally show ?thesis by simp
qed

lemma mar1_era:
  "(y div 400) * 146097 + (y - y div 400 * 400) * 365 + (y - y div 400 * 400) div 4
     - (y - y div 400 * 400) div 100 = mar1 y"
proof -
  define e r where "e = y div 400" and "r = y mod 400"
  have y: "y = r + e * 400" by (simp add: e_def r_def)
  have r: "y - e * 400 = r" using y by simp
  have "y div 4 = r div 4 + e * 100" using y by (simp add: div_mult_self1 [symmetric] mult.assoc)
  moreover have "y div 100 = r div 100 + e * 4" using y by (simp add: div_mult_self1 [symmetric] mult.assoc)
  moreover have "y div 400 = e" by (simp add: e_def)
  moreover have "365 * y = 365 * r + e * 146000" using y by simp
  ultimately show ?thesis by (simp add: r mar1_def e_def [symmetric])
qed

lemma days_from_civil_mar1:
  "days_from_civil d = mar1 (if month d \<le> 2 then year d - 1 else year d)
       + (153 * int ((month d + 9) mod 12) + 2) div 5 + int (day d) - 1 - 719468"
  unfolding days_from_civil_def Let_def mar1_era [symmetric] by simp

lemma days_before_month_offset:
  assumes "1 \<le> m" and "m \<le> 12"
  shows "int (days_before_month y m) =
           (153 * int ((m + 9) mod 12) + 2) div 5 +
           (if m \<le> 2 then - 306 else 59 + (if is_leap y then 1 else 0))"
proof -
  have "m = 1 \<or> m = 2 \<or> m = 3 \<or> m = 4 \<or> m = 5 \<or> m = 6 \<or>
        m = 7 \<or> m = 8 \<or> m = 9 \<or> m = 10 \<or> m = 11 \<or> m = 12"
    using assms by presburger
  then show ?thesis
    by (elim disjE) (simp_all add: days_before_month_def days_in_month_def upt_conv_Cons)
qed

lemma days_from_civil_jan1:
  assumes "1 \<le> month d" and "month d \<le> 12"
  shows "days_from_civil d = jan1 (year d) + int (days_before_month (year d) (month d)) + int (day d) - 1"
  using mar1_step [of "year d"] days_before_month_offset [OF assms, of "year d"]
  by (simp add: days_from_civil_mar1 jan1_def year_length_def)

lemma jan1_step: "jan1 (y + 1) = jan1 y + year_length y"
  using mar1_step [of y] by (simp add: jan1_def)

lemma jan1_epoch: "jan1 1970 = 0"
  by (simp add: jan1_def mar1_def)

lemma days_before_year_step: "days_before_year (y + 1) = days_before_year y + year_length y"
proof (cases "1970 \<le> y")
  case True
  then show ?thesis by (simp add: days_before_year_def upto_rec2 [of 1970 y])
next
  case False
  show ?thesis
  proof (cases "y = 1969")
    case True
    then show ?thesis by (simp add: days_before_year_def)
  next
    case False
    with \<open>\<not> 1970 \<le> y\<close> show ?thesis by (simp add: days_before_year_def upto_rec1 [of y 1969])
  qed
qed

lemma days_before_year_jan1: "days_before_year y = jan1 y"
proof (induction y rule: int_induct [where k = 1970])
  case base
  then show ?case by (simp add: jan1_epoch days_before_year_def)
next
  case (step1 i)
  then show ?case by (simp add: days_before_year_step jan1_step)
next
  case (step2 i)
  then show ?case using days_before_year_step [of "i - 1"] jan1_step [of "i - 1"] by simp
qed

text \<open>
  The weekday of the stored timestamp is right on every date: on every
  valid date, Hinnant's closed form \<open>days_from_civil\<close> equals the reference
  count of days since 1970-01-01 (whole years, then months, then days), so
  the weekday name is the one that count gives.
\<close>

theorem civil_days_equiv:
  assumes "valid_date d"
  shows "days_from_civil d = civil_days_ref d \<and>
         weekday_short d = weekday_names ! nat ((civil_days_ref d + 4) mod 7)"
  using assms by (simp add: valid_date_def days_from_civil_jan1 civil_days_ref_def days_before_year_jan1
                            weekday_short_def get_day_def)

theorem civil_days_equiv_witness:
  "valid_date \<lparr>year = 2024, month = 2, day = 29\<rparr> \<and>
   weekday_short \<lparr>year = 2024, month = 2, day = 29\<rparr> =
     weekday_names ! nat ((civil_days_ref \<lparr>year = 2024, month = 2, day = 29\<rparr> + 4) mod 7)"
  using civil_days_equiv [of "\<lparr>year = 2024, month = 2, day = 29\<rparr>"] by (simp add: js_eval)

end
