(* ===== verification/Schema.thy ===== *)
theory Schema
  imports Slug TimeCompose
begin

text \<open>
  The form's data and its validation: \<open>FormData\<close>, the option lists \<open>timezones\<close>,
  \<open>hours\<close> and \<open>mins\<close>, and the zod schema \<open>EventSchema\<close> of
  \<^verbatim>\<open>src/app/addEvent/page.tsx\<close> (lines 50-136). zod runs the checks of a
  string schema in their order on the raw input and reports every failed one;
  \<open>.trim()\<close> and \<open>.toLowerCase()\<close> come after the checks and transform the
  value handed to \<open>onSubmit\<close>. \<open>EventSchema_parse\<close> returns the issues
  (\<open>Inl\<close>) or the transformed data (\<open>Inr\<close>).
\<close>

subsection \<open>Form data and option lists\<close>

datatype field = EventTitle | EventSlug | EventDate | EventTimeHour | EventTimeMin
  | EventTimeAMPM | EventTimezone

record form_data =
  eventTitle :: string
  eventSlug :: string
  eventDate :: "cal_date option"
  eventTimeHour :: string
  eventTimeMin :: string
  eventTimeAMPM :: string
  eventTimezone :: string

type_synonym issue = "field \<times> string"

definition timezones :: "(string \<times> string) list" where
  "timezones =
     [(''-10:00'', ''(GMT -10:00) Hawaii''),
      (''-09:00'', ''(GMT -9:00) Alaska''),
      (''-08:00'', ''(GMT -8:00) Pacific Time (US & Canada)''),
      (''-07:00'', ''(GMT -7:00) Mountain Time (US & Canada)''),
      (''-06:00'', ''(GMT -6:00) Central Time (US & Canada), Mexico City''),
      (''-05:00'', ''(GMT -5:00) Eastern Time (US & Canada), Bogota, Lima''),
      (''-04:00'', ''(GMT -4:00) Atlantic Time (Canada), Caracas, La Paz''),
      (''-03:30'', ''(GMT -3:30) Newfoundland''),
      (''-03:00'', ''(GMT -3:00) Brazil, Buenos Aires, Georgetown'')]"

text \<open>The literal list \<open>'1', '2', ..., '12'\<close> of the source, written as the decimal renderings of 1..12.\<close>

definition hours :: "string list" where
  "hours = map show_nat [1..<13]"

text \<open>\<open>Array.from({length: 60}, (_, i) => i.toString().padStart(2, '0'))\<close>.\<close>

definition mins :: "string list" where
  "mins = map (\<lambda>i. pad_start 2 CHR ''0'' (show_nat i)) [0..<60]"

subsection \<open>The schema\<close>

text \<open>\<open>/^[a-zA-Z0-9\s&@.,_\-'"]+$/\<close> and \<open>/^[a-zA-Z0-9\-]+$/\<close>.\<close>

definition title_char :: "char \<Rightarrow> bool" where
  "title_char c \<longleftrightarrow> is_upper_alpha c \<or> is_lower_alpha c \<or> is_digit c \<or> js_is_space c \<or>
     c \<in> set ''&@.,_-'' \<or> c = CHR 0x27 \<or> c = CHR 0x22"

definition slug_re_char :: "char \<Rightarrow> bool" where
  "slug_re_char c \<longleftrightarrow> is_upper_alpha c \<or> is_lower_alpha c \<or> is_digit c \<or> c = CHR ''-''"

definition matches_plus :: "(char \<Rightarrow> bool) \<Rightarrow> string \<Rightarrow> bool" where
  "matches_plus P s \<longleftrightarrow> s \<noteq> [] \<and> list_all P s"

definition title_issues :: "string \<Rightarrow> issue list" where
  "title_issues s =
     (if 1 \<le> length s then [] else [(EventTitle, ''Event name must be at least 1 character.'')]) @
     (if matches_plus title_char s then []
      else [(EventTitle, ''Input must contain only letters, numbers, spaces, &, @, ., _, or -, single quotes, or double quotes'')])"

definition slug_issues :: "string \<Rightarrow> issue list" where
  "slug_issues s =
     (if 1 \<le> length s then [] else [(EventSlug, ''Event slug must be at least 1 character.'')]) @
     (if matches_plus slug_re_char s then []
      else [(EventSlug, ''Input must contain only letters, numbers, or -'')])"

definition enum_issues :: "field \<Rightarrow> string list \<Rightarrow> string \<Rightarrow> string \<Rightarrow> issue list" where
  "enum_issues f opts msg s = (if s \<in> set opts then [] else [(f, msg)])"

definition schema_issues :: "form_data \<Rightarrow> issue list" where
  "schema_issues v =
     title_issues (eventTitle v) @
     slug_issues (eventSlug v) @
     (case eventDate v of None \<Rightarrow> [(EventDate, ''A date for this event is required.'')] | Some _ \<Rightarrow> []) @
     enum_issues EventTimeHour hours ''A time for this event is required.'' (eventTimeHour v) @
     enum_issues EventTimeMin mins ''A time for this event is required.'' (eventTimeMin v) @
     enum_issues EventTimeAMPM [''AM'', ''PM''] ''Please select AM or PM.'' (eventTimeAMPM v)"

text \<open>The value zod hands on: title and slug trimmed, then lower-cased.\<close>

definition schema_output :: "form_data \<Rightarrow> form_data" where
  "schema_output v =
     v\<lparr>eventTitle := js_toLowerCase (js_trim (eventTitle v)),
       eventSlug := js_toLowerCase (js_trim (eventSlug v))\<rparr>"

definition EventSchema_parse :: "form_data \<Rightarrow> issue list + form_data" where
  "EventSchema_parse v = (if schema_issues v = [] then Inr (schema_output v) else Inl (schema_issues v))"

declare timezones_def [js_eval] hours_def [js_eval] title_char_def [js_eval]
  slug_re_char_def [js_eval] matches_plus_def [js_eval] title_issues_def [js_eval]
  slug_issues_def [js_eval] enum_issues_def [js_eval] schema_issues_def [js_eval]
  schema_output_def [js_eval] EventSchema_parse_def [js_eval]

subsection \<open>Lemmas\<close>

lemma mins_literal [js_eval]:
  "mins = [''00'', ''01'', ''02'', ''03'', ''04'', ''05'', ''06'', ''07'', ''08'', ''09'', ''10'', ''11'', ''12'', ''13'', ''14'', ''15'', ''16'', ''17'', ''18'', ''19'', ''20'', ''21'', ''22'', ''23'', ''24'', ''25'', ''26'', ''27'', ''28'', ''29'', ''30'', ''31'', ''32'', ''33'', ''34'', ''35'', ''36'', ''37'', ''38'', ''39'', ''40'', ''41'', ''42'', ''43'', ''44'', ''45'', ''46'', ''47'', ''48'', ''49'', ''50'', ''51'', ''52'', ''53'', ''54'', ''55'', ''56'', ''57'', ''58'', ''59'']"
  by code_simp

lemma slug_char_re_char: "slug_char c \<Longrightarrow> slug_re_char c"
  by (auto simp: slug_char_def slug_re_char_def)

lemma EventSchema_parse_Inr:
  "EventSchema_parse v = Inr d \<Longrightarrow> schema_issues v = [] \<and> d = schema_output v"
  by (simp add: EventSchema_parse_def split: if_splits)

lemma schema_issues_Nil:
  "schema_issues v = [] \<longleftrightarrow>
     title_issues (eventTitle v) = [] \<and> slug_issues (eventSlug v) = [] \<and> eventDate v \<noteq> None \<and>
     eventTimeHour v \<in> set hours \<and> eventTimeMin v \<in> set mins \<and> eventTimeAMPM v \<in> {''AM'', ''PM''}"
  by (auto simp: schema_issues_def enum_issues_def split: option.splits)

lemma title_char_lower:
  assumes "title_char c"
  shows "title_char (js_lower_char c)"
proof (cases "is_upper_alpha c")
  case True
  then have "code (js_lower_char c) = code c + 32" by (simp add: js_lower_char_code)
  with True have "is_lower_alpha (js_lower_char c)" by (simp add: is_upper_alpha_def is_lower_alpha_def)
  then show ?thesis by (simp add: title_char_def)
next
  case False
  have "\<not> is_latin1_upper c"
  proof
    assume l: "is_latin1_upper c"
    have "code c \<notin> {38, 64, 46, 44, 95, 45, 39, 34}" using l by (auto simp: is_latin1_upper_def)
    then have "c \<notin> set ''&@.,_-'' \<and> c \<noteq> CHR 0x27 \<and> c \<noteq> CHR 0x22" by auto
    with assms l show False
      by (auto simp: title_char_def is_latin1_upper_def is_upper_alpha_def is_lower_alpha_def is_digit_def js_is_space_def)
  qed
  with False assms show ?thesis by simp
qed

lemma slug_re_char_lower: "slug_re_char c \<Longrightarrow> slug_char (js_lower_char c)"
proof (cases "is_upper_alpha c")
  case True
  then have "code (js_lower_char c) = code c + 32" by (simp add: js_lower_char_code)
  with True show ?thesis by (simp add: slug_char_def is_upper_alpha_def is_lower_alpha_def)
qed (auto simp: slug_re_char_def slug_char_def js_class)

lemma slug_re_char_no_space: "slug_re_char c \<Longrightarrow> \<not> js_is_space c"
  by (auto simp: slug_re_char_def is_upper_alpha_def is_lower_alpha_def is_digit_def js_is_space_def)

lemma slug_issues_Nil: "slug_issues s = [] \<longleftrightarrow> s \<noteq> [] \<and> list_all slug_re_char s"
  by (cases s) (auto simp: slug_issues_def matches_plus_def)

lemma schema_output_fields [simp]:
  "eventTimeHour (schema_output v) = eventTimeHour v"
  "eventTimeAMPM (schema_output v) = eventTimeAMPM v"
  "eventTitle (schema_output v) = js_toLowerCase (js_trim (eventTitle v))"
  "eventSlug (schema_output v) = js_toLowerCase (js_trim (eventSlug v))"
  by (simp_all add: schema_output_def)

lemma title_issues_Nil: "title_issues s = [] \<longleftrightarrow> s \<noteq> [] \<and> list_all title_char s"
  by (cases s) (auto simp: title_issues_def matches_plus_def)

text \<open>What the schema guarantees of the title and slug it hands on.\<close>

lemma schema_output_typed:
  assumes "schema_issues v = []"
  shows "eventSlug (schema_output v) \<noteq> [] \<and> list_all slug_char (eventSlug (schema_output v)) \<and>
         list_all (\<lambda>c. title_char c \<and> \<not> is_upper_alpha c \<and> \<not> is_latin1_upper c) (eventTitle (schema_output v)) \<and>
         js_trim (eventTitle (schema_output v)) = eventTitle (schema_output v)"
proof -
  have t: "list_all title_char (eventTitle v)" and sl: "eventSlug v \<noteq> []" "list_all slug_re_char (eventSlug v)"
    using assms by (simp_all add: schema_issues_Nil title_issues_Nil slug_issues_Nil)
  have "js_trim (eventSlug v) = eventSlug v"
    using sl(2) by (intro js_trim_no_space) (auto simp: list_all_iff slug_re_char_no_space)
  then have slug: "eventSlug (schema_output v) = map js_lower_char (eventSlug v)"
    by (simp add: js_toLowerCase_def)
  have "\<forall>c\<in>set (js_trim (eventTitle v)). title_char c"
    using t set_js_trim [of "eventTitle v"] by (auto simp: list_all_iff)
  then have title: "list_all (\<lambda>c. title_char c \<and> \<not> is_upper_alpha c \<and> \<not> is_latin1_upper c)
                      (eventTitle (schema_output v))"
    by (auto simp: list_all_iff js_toLowerCase_def title_char_lower js_lower_char_not_upper)
  have "js_trim (eventTitle (schema_output v)) = eventTitle (schema_output v)"
    by (simp add: js_trim_toLowerCase)
  with slug sl title show ?thesis by (auto simp: list_all_iff slug_re_char_lower)
qed

subsection \<open>Claims on the schema\<close>

lemma js_trim_spaces: "list_all js_is_space w \<Longrightarrow> js_trim w = []"
proof -
  assume "list_all js_is_space w"
  then have d: "dropWhile js_is_space w = []" by (induction w) simp_all
  show ?thesis unfolding js_trim_def d by simp
qed

text \<open>
  C24: the title checks run before \<open>.trim()\<close>: for every form the schema
  accepts, replacing the title by any non-empty run of white space is
  accepted too, and the empty title is handed to \<open>onSubmit\<close>.
\<close>

theorem schema_accepts_blank_title:
  assumes "schema_issues v = []" and "w \<noteq> []" and "list_all js_is_space w"
  shows "EventSchema_parse (v\<lparr>eventTitle := w\<rparr>) = Inr ((schema_output v)\<lparr>eventTitle := []\<rparr>)"
proof -
  have "title_issues w = []"
    using assms(2,3) by (simp add: title_issues_def matches_plus_def title_char_def list_all_iff Suc_le_eq)
  then have "schema_issues (v\<lparr>eventTitle := w\<rparr>) = []"
    using assms(1) by (simp add: schema_issues_Nil)
  then show ?thesis
    using js_trim_spaces [OF assms(3)] by (simp add: EventSchema_parse_def schema_output_def js_toLowerCase_def)
qed

theorem schema_accepts_blank_title_witness:
  "schema_issues \<lparr>eventTitle = ''x'', eventSlug = ''x'', eventDate = Some \<lparr>year = 2024, month = 3, day = 1\<rparr>,
      eventTimeHour = ''7'', eventTimeMin = ''05'', eventTimeAMPM = ''PM'', eventTimezone = ''-05:00''\<rparr> = [] \<and>
   list_all js_is_space ''   '' \<and>
   EventSchema_parse
     \<lparr>eventTitle = ''   '', eventSlug = ''x'', eventDate = Some \<lparr>year = 2024, month = 3, day = 1\<rparr>,
      eventTimeHour = ''7'', eventTimeMin = ''05'', eventTimeAMPM = ''PM'', eventTimezone = ''-05:00''\<rparr> =
   Inr \<lparr>eventTitle = [], eventSlug = ''x'', eventDate = Some \<lparr>year = 2024, month = 3, day = 1\<rparr>,
      eventTimeHour = ''7'', eventTimeMin = ''05'', eventTimeAMPM = ''PM'', eventTimezone = ''-05:00''\<rparr>"
proof -
  have h: "schema_issues \<lparr>eventTitle = ''x'', eventSlug = ''x'', eventDate = Some \<lparr>year = 2024, month = 3, day = 1\<rparr>,
      eventTimeHour = ''7'', eventTimeMin = ''05'', eventTimeAMPM = ''PM'', eventTimezone = ''-05:00''\<rparr> = []"
    "''   '' \<noteq> []" "list_all js_is_space ''   ''"
    by (simp_all add: js_eval)
  have o: "schema_output \<lparr>eventTitle = ''x'', eventSlug = ''x'', eventDate = Some \<lparr>year = 2024, month = 3, day = 1\<rparr>,
      eventTimeHour = ''7'', eventTimeMin = ''05'', eventTimeAMPM = ''PM'', eventTimezone = ''-05:00''\<rparr> =
    \<lparr>eventTitle = ''x'', eventSlug = ''x'', eventDate = Some \<lparr>year = 2024, month = 3, day = 1\<rparr>,
      eventTimeHour = ''7'', eventTimeMin = ''05'', eventTimeAMPM = ''PM'', eventTimezone = ''-05:00''\<rparr>"
    by (simp add: js_eval)
  show ?thesis using h o schema_accepts_blank_title [OF h] by simp
qed

text \<open>
  C21: every non-empty slug that generateSlug derives passes the slug field's
  checks, and the schema's trim and lower-case leave it unchanged.
\<close>

theorem derived_slug_passes_schema:
  assumes "generateSlug t \<noteq> []"
  shows "slug_issues (generateSlug t) = [] \<and> js_toLowerCase (js_trim (generateSlug t)) = generateSlug t"
proof -
  have wf: "well_formed_slug (generateSlug t)" by (rule generateSlug_wf)
  then have "list_all slug_re_char (generateSlug t)"
    by (auto simp: well_formed_slug_def list_all_iff intro: slug_char_re_char)
  with assms have "slug_issues (generateSlug t) = []" by (simp add: slug_issues_Nil)
  moreover have "\<forall>c\<in>set (generateSlug t). \<not> js_is_space c \<and> \<not> is_upper_alpha c \<and> \<not> is_latin1_upper c"
    using wf by (auto simp: well_formed_slug_def list_all_iff dest: slug_char_classes)
  then have "js_toLowerCase (js_trim (generateSlug t)) = generateSlug t"
    by (simp add: js_trim_no_space js_toLowerCase_id)
  ultimately show ?thesis by simp
qed

theorem derived_slug_passes_schema_witness:
  "generateSlug ''Happy Birthday!'' \<noteq> [] \<and> slug_issues (generateSlug ''Happy Birthday!'') = []"
  using derived_slug_passes_schema [of "''Happy Birthday!''"] by (simp add: js_eval)

text \<open>
  C17: on data that passed the schema, the hour stored by onSubmit is the
  selected hour n (1..12) for AM and n + 12 for PM, so it lies in 1..24.
\<close>

theorem validated_stored_hour:
  assumes "EventSchema_parse v = Inr d"
  shows "\<exists>n. 1 \<le> n \<and> n \<le> 12 \<and>
           event_hr (eventTimeHour d) (eventTimeAMPM d) =
             show_nat (if eventTimeAMPM d = ''PM'' then n + 12 else n)"
proof -
  from EventSchema_parse_Inr [OF assms] have ok: "schema_issues v = []" and d: "d = schema_output v"
    by simp_all
  then have "eventTimeHour v \<in> set hours" by (simp add: schema_issues_Nil)
  then obtain n where n: "1 \<le> n" "n \<le> 12" and h: "eventTimeHour v = show_nat n"
    by (auto simp: hours_def)
  then show ?thesis
    using d by (cases "eventTimeAMPM v = ''PM''") auto
qed

theorem validated_stored_hour_witness:
  "EventSchema_parse
     \<lparr>eventTitle = ''Party'', eventSlug = ''party'', eventDate = Some \<lparr>year = 2024, month = 3, day = 1\<rparr>,
      eventTimeHour = ''7'', eventTimeMin = ''05'', eventTimeAMPM = ''PM'', eventTimezone = ''-05:00''\<rparr> =
   Inr \<lparr>eventTitle = ''party'', eventSlug = ''party'', eventDate = Some \<lparr>year = 2024, month = 3, day = 1\<rparr>,
      eventTimeHour = ''7'', eventTimeMin = ''05'', eventTimeAMPM = ''PM'', eventTimezone = ''-05:00''\<rparr> \<and>
   (\<exists>n. 1 \<le> n \<and> n \<le> 12 \<and> event_hr ''7'' ''PM'' = show_nat (n + 12))"
proof -
  have p: "EventSchema_parse
     \<lparr>eventTitle = ''Party'', eventSlug = ''party'', eventDate = Some \<lparr>year = 2024, month = 3, day = 1\<rparr>,
      eventTimeHour = ''7'', eventTimeMin = ''05'', eventTimeAMPM = ''PM'', eventTimezone = ''-05:00''\<rparr> =
   Inr \<lparr>eventTitle = ''party'', eventSlug = ''party'', eventDate = Some \<lparr>year = 2024, month = 3, day = 1\<rparr>,
      eventTimeHour = ''7'', eventTimeMin = ''05'', eventTimeAMPM = ''PM'', eventTimezone = ''-05:00''\<rparr>"
    by (simp add: js_eval)
  show ?thesis using p validated_stored_hour [OF p] by simp
qed

end
