(* ===== verification/AddEvent.thy ===== *)
theory AddEvent
  imports Schema Store
begin

text \<open>
  The add-event page, \<open>AddEvent\<close> of \<^verbatim>\<open>src/app/addEvent/page.tsx\<close>: the
  UniquenessChecker (the \<open>form.watch\<close> subscription with its \<open>setTimeout\<close>
  probe, lines 221-308), the ValidationGate (\<open>submitButtonEnabled\<close>,
  \<open>isCheckingTitle\<close> and the button's \<open>disabled\<close> condition, line 639), the
  EventSubmitter (\<open>onSubmit\<close>, lines 311-385, behind react-hook-form's
  \<open>handleSubmit\<close>) and the admin lookup (lines 151-175).

  The page's React state and the form's state are one record, \<open>add_state\<close>.
  Each handler is a function on it; a user action, a timer, a store reply or a
  re-render is a \<open>page_event\<close>, and \<open>page_step\<close> applies one to the page and
  the store together, so that any interleaving the single-threaded event loop
  allows is a list of events. Facts the model takes from the libraries:
  \<^item> the watch callback runs synchronously when a field changes, and again,
    nested, when it calls \<open>form.setValue('eventSlug', ...)\<close>;
  \<^item> the function the callback returns (\<open>() => clearTimeout(timeoutId)\<close>) is
    ignored by \<open>watch\<close>, so no timer is ever cleared;
  \<^item> \<open>form.formState\<close> (\<open>errors\<close>, \<open>isDirty\<close>) is the snapshot of the last render;
    the \<open>Rerender\<close> event refreshes it, at whatever point the environment
    chooses;
  \<^item> the callback closes over the \<open>titleExists\<close> of the first render
    (\<open>useEffect(..., [form])\<close> installs it once): \<open>watch_titleExists\<close>.

  Proved here: the gate's invariant over every run, the store's uniqueness,
  what a click may write and the shape of the row it writes, the checker's
  behaviour on one probe, on overlapping probes and on a failed one, and that
  the checker settles once the environment fires the timers and answers the
  probes, unless a probe failed.
\<close>

subsection \<open>State\<close>

datatype probe_reply = ProbeError | ProbeRows "string list"

record add_state =
  form_values :: form_data
  default_values :: form_data
  is_submitted :: bool
  form_errors :: "issue list"
  form_dirty :: bool
  isConnected :: bool
  emailAddress :: string
  isLoading :: bool
  currentAdminId :: "int option"
  error :: "string option"
  errorMessage :: "string option"
  isCheckingTitle :: bool
  titleExists :: bool
  submitButtonEnabled :: bool
  watch_titleExists :: bool
  clock :: nat
  timers :: "(nat \<times> string) list"
  inflight :: "string list"
  queries :: "string list"
  navigated :: bool

definition msg_title_taken :: string where
  "msg_title_taken = ''Event title already taken, please enter a new event title.''"

definition msg_slug_taken :: string where
  "msg_slug_taken = ''Event slug already taken, please enter a new event slug.''"

definition msg_save_failed :: string where
  "msg_save_failed = ''There was an error saving your event, please reload the page and try again!''"

text \<open>The initial render: defaults from the clock (hour, minute, offset) and the wallet.\<close>

definition initial_values :: "nat \<Rightarrow> nat \<Rightarrow> int \<Rightarrow> form_data" where
  "initial_values h m off =
     \<lparr>eventTitle = [], eventSlug = [], eventDate = None,
      eventTimeHour = show_nat (hour_in_12 h), eventTimeMin = minute_string m,
      eventTimeAMPM = default_ampm h, eventTimezone = tz_offset_string off\<rparr>"

definition init_page :: "nat \<Rightarrow> nat \<Rightarrow> int \<Rightarrow> bool \<Rightarrow> string \<Rightarrow> add_state" where
  "init_page h m off conn email =
     \<lparr>form_values = initial_values h m off, default_values = initial_values h m off,
      is_submitted = False, form_errors = [], form_dirty = False, isConnected = conn, emailAddress = email,
      isLoading = True, currentAdminId = None, error = None, errorMessage = None,
      isCheckingTitle = False, titleExists = False, submitButtonEnabled = False,
      watch_titleExists = False, clock = 0, timers = [], inflight = [], queries = [],
      navigated = False\<rparr>"

subsection \<open>The gate (lines 251-269, 283-304, 639)\<close>

definition is_form_complete :: "form_data \<Rightarrow> bool" where
  "is_form_complete v \<longleftrightarrow>
     eventTitle v \<noteq> [] \<and> eventSlug v \<noteq> [] \<and> eventDate v \<noteq> None \<and> eventTimeHour v \<noteq> [] \<and>
     eventTimeMin v \<noteq> [] \<and> eventTimeAMPM v \<noteq> [] \<and> eventTimezone v \<noteq> []"

definition form_is_valid :: "add_state \<Rightarrow> bool \<Rightarrow> bool" where
  "form_is_valid s exists \<longleftrightarrow>
     form_errors s = [] \<and> form_dirty s \<and> is_form_complete (form_values s) \<and> \<not> exists"

text \<open>\<open>disabled={!submitButtonEnabled || isCheckingTitle}\<close>.\<close>

definition submit_enabled :: "add_state \<Rightarrow> bool" where
  "submit_enabled s \<longleftrightarrow> submitButtonEnabled s \<and> \<not> isCheckingTitle s"

subsection \<open>The watch callback (lines 221-308)\<close>

text \<open>A change of any field but the title (lines 283-304).\<close>

definition watch_other :: "add_state \<Rightarrow> add_state" where
  "watch_other s = s\<lparr>submitButtonEnabled := form_is_valid s (watch_titleExists s)\<rparr>"

text \<open>\<open>value.eventTitle.toLowerCase().trim()\<close>, the key of the probe (line 240).\<close>

definition probe_key :: "string \<Rightarrow> string" where
  "probe_key t = js_trim (js_toLowerCase t)"

text \<open>
  A change of the title (lines 223-281): clear the errors, mark the check as
  outstanding, derive and set the slug (which runs the callback again, for
  \<open>eventSlug\<close>), and schedule \<open>checkEventTitle\<close> 500 ms later.
\<close>

definition watch_title :: "add_state \<Rightarrow> add_state" where
  "watch_title s =
     (let t = eventTitle (form_values s);
          s1 = s\<lparr>error := None, errorMessage := None, titleExists := False, isCheckingTitle := True\<rparr>;
          s2 = s1\<lparr>form_values := (form_values s1)\<lparr>eventSlug := generateSlug t\<rparr>\<rparr>;
          s3 = watch_other s2
      in s3\<lparr>timers := timers s3 @ [(clock s3 + 500, t)]\<rparr>)"

text \<open>
  The callback as \<open>watch\<close> runs it: \<open>form.setValue('eventSlug', slug)\<close> in the
  title branch calls the same callback again, synchronously, for
  \<open>eventSlug\<close>, before the timer is scheduled. \<open>None\<close> is a callback that
  never returns.
\<close>

partial_function (option) watch_cb :: "field \<Rightarrow> add_state \<Rightarrow> add_state option" where
  "watch_cb f s =
     (if f = EventTitle
      then (let t = eventTitle (form_values s);
                s1 = s\<lparr>error := None, errorMessage := None, titleExists := False, isCheckingTitle := True\<rparr>;
                s2 = s1\<lparr>form_values := (form_values s1)\<lparr>eventSlug := generateSlug t\<rparr>\<rparr>
            in Option.bind (watch_cb EventSlug s2)
                 (\<lambda>s3. Some (s3\<lparr>timers := timers s3 @ [(clock s3 + 500, t)]\<rparr>)))
      else Some (s\<lparr>submitButtonEnabled := form_is_valid s (watch_titleExists s)\<rparr>))"

text \<open>\<open>checkEventTitle\<close> up to its \<open>await\<close> (lines 234-241, 271-275).\<close>

definition check_fire :: "string \<Rightarrow> add_state \<Rightarrow> add_state" where
  "check_fire t s =
     (if t \<noteq> [] then s\<lparr>isCheckingTitle := True, inflight := inflight s @ [probe_key t],
                       queries := queries s @ [probe_key t]\<rparr>
      else s\<lparr>titleExists := False, submitButtonEnabled := False, isCheckingTitle := False\<rparr>)"

text \<open>\<open>checkEventTitle\<close> after its \<open>await\<close> (lines 243-270).\<close>

definition check_reply :: "probe_reply \<Rightarrow> add_state \<Rightarrow> add_state" where
  "check_reply r s =
     (case r of
        ProbeError \<Rightarrow> s
      | ProbeRows rows \<Rightarrow>
          (let exists = (0 < length rows)
           in s\<lparr>titleExists := exists, submitButtonEnabled := form_is_valid s exists,
                isCheckingTitle := False\<rparr>))"

declare msg_title_taken_def [js_eval] msg_slug_taken_def [js_eval] msg_save_failed_def [js_eval]
  initial_values_def [js_eval] init_page_def [js_eval] is_form_complete_def [js_eval]
  form_is_valid_def [js_eval] submit_enabled_def [js_eval] watch_other_def [js_eval]
  probe_key_def [js_eval] watch_title_def [js_eval] check_fire_def [js_eval] check_reply_def [js_eval]

subsection \<open>Submission (lines 311-385)\<close>

text \<open>
  \<open>new Date(formData.eventDate)\<close> of a missing date is an invalid Date, whose
  weekday and month render as "Invalid Date" and whose numbers are \<open>NaN\<close>.
\<close>

definition submit_date_string :: "form_data \<Rightarrow> string" where
  "submit_date_string d =
     (case eventDate d of
        Some c \<Rightarrow> formatted_date c (eventTimeHour d) (eventTimeMin d) (eventTimeAMPM d) (eventTimezone d)
      | None \<Rightarrow> ''Invalid Date Invalid Date NaN NaN '' @
                formatted_time (eventTimeHour d) (eventTimeMin d) (eventTimeAMPM d) @ '' '' @ eventTimezone d)"

text \<open>The error branch after the insert (lines 363-380).\<close>

definition insert_failed :: "pg_error \<Rightarrow> add_state \<Rightarrow> add_state" where
  "insert_failed e s =
     (let s1 = s\<lparr>error := Some (err_code e)\<rparr>
      in if err_code e = ''23505'' then
           (let s2 = (if js_includes (err_details e) ''event_title''
                      then s1\<lparr>errorMessage := Some msg_title_taken\<rparr> else s1)
            in if js_includes (err_details e) ''event_slug''
               then s2\<lparr>errorMessage := Some msg_slug_taken\<rparr> else s2)
         else s1\<lparr>errorMessage := Some msg_save_failed\<rparr>)"

text \<open>
  \<open>onSubmit\<close> with the data zod produced. \<open>net\<close> is a failure of the request
  itself (\<open>Some\<close>), which the store never sees; otherwise the insert runs
  against the store.
\<close>

definition onSubmit :: "pg_error option \<Rightarrow> form_data \<Rightarrow> add_state \<Rightarrow> db \<Rightarrow> add_state \<times> db" where
  "onSubmit net d s st =
     (if titleExists s
      then (s\<lparr>error := Some ''Duplicate title'', errorMessage := Some msg_title_taken\<rparr>, st)
      else
        (let date = submit_date_string d;
             s1 = s\<lparr>error := None, errorMessage := None, titleExists := False, isLoading := False\<rparr>;
             res = (case net of
                      Some e \<Rightarrow> Inl e
                    | None \<Rightarrow> db_insert_event st (eventTitle d) (eventSlug d) (currentAdminId s) date)
         in case res of
              Inl e \<Rightarrow> (insert_failed e s1, st)
            | Inr (r, st') \<Rightarrow> (s1\<lparr>navigated := True\<rparr>, st')))"

text \<open>\<open>form.handleSubmit(onSubmit)\<close>: the resolver first; \<open>onSubmit\<close> only on valid data.\<close>

definition handle_submit :: "pg_error option \<Rightarrow> add_state \<Rightarrow> db \<Rightarrow> add_state \<times> db" where
  "handle_submit net s st =
     (case EventSchema_parse (form_values s) of
        Inl iss \<Rightarrow> (s\<lparr>is_submitted := True, form_errors := iss\<rparr>, st)
      | Inr d \<Rightarrow> (case onSubmit net d s st of
                    (s', st') \<Rightarrow> (s'\<lparr>is_submitted := True, form_errors := []\<rparr>, st')))"

text \<open>\<open>fetchCurrentAdmin\<close> after its query (lines 160-171).\<close>

definition admin_loaded :: "pg_error + int list \<Rightarrow> add_state \<Rightarrow> add_state" where
  "admin_loaded r s =
     (case r of
        Inl e \<Rightarrow> s\<lparr>error := Some (err_code e), isLoading := False\<rparr>
      | Inr ids \<Rightarrow> s\<lparr>currentAdminId := Some (case ids of [] \<Rightarrow> 0 | i # _ \<Rightarrow> i), isLoading := False\<rparr>)"

subsection \<open>Events and the step function\<close>

datatype page_event =
    EditField field string
  | PickDate "cal_date option"
  | Rerender
  | Tick nat
  | FireTimer
  | Reply nat bool
  | Click "pg_error option"
  | AdminLoaded "pg_error option"
  | OtherClient string string

fun set_field :: "field \<Rightarrow> string \<Rightarrow> form_data \<Rightarrow> form_data" where
  "set_field EventTitle x v = v\<lparr>eventTitle := x\<rparr>"
| "set_field EventSlug x v = v\<lparr>eventSlug := x\<rparr>"
| "set_field EventDate x v = v"
| "set_field EventTimeHour x v = v\<lparr>eventTimeHour := x\<rparr>"
| "set_field EventTimeMin x v = v\<lparr>eventTimeMin := x\<rparr>"
| "set_field EventTimeAMPM x v = v\<lparr>eventTimeAMPM := x\<rparr>"
| "set_field EventTimezone x v = v\<lparr>eventTimezone := x\<rparr>"

text \<open>The form is on screen: not loading, wallet connected (lines 391-403), still on the page.\<close>

definition interactive :: "add_state \<Rightarrow> bool" where
  "interactive s \<longleftrightarrow> \<not> isLoading s \<and> isConnected s \<and> \<not> navigated s"

text \<open>
  What the page renders (lines 391-424, 639): the loading screen, the wallet
  prompt when no wallet is connected, or the form with its error line
  (\<open>{error && <p>{errorMessage}</p>}\<close>: an empty line when \<open>error\<close> is set
  and \<open>errorMessage\<close> is not) and whether Create Event is disabled.
\<close>

datatype add_view = AddLoading | WalletPrompt | AddForm "string option" bool

definition add_render :: "add_state \<Rightarrow> add_view" where
  "add_render s =
     (if isLoading s then AddLoading
      else if \<not> isConnected s then WalletPrompt
      else AddForm (case error s of None \<Rightarrow> None
                    | Some _ \<Rightarrow> Some (case errorMessage s of None \<Rightarrow> [] | Some m \<Rightarrow> m))
                   (\<not> submit_enabled s))"


fun page_step :: "add_state \<times> db \<Rightarrow> page_event \<Rightarrow> add_state \<times> db" where
  "page_step (s, st) (EditField f x) =
     (if \<not> interactive s then (s, st)
      else if f = EventTitle
      then (watch_title (s\<lparr>form_values := set_field f x (form_values s)\<rparr>), st)
      else (watch_other (s\<lparr>form_values := set_field f x (form_values s)\<rparr>), st))"
| "page_step (s, st) (PickDate d) =
     (if \<not> interactive s then (s, st)
      else (watch_other (s\<lparr>form_values := (form_values s)\<lparr>eventDate := d\<rparr>\<rparr>), st))"
| "page_step (s, st) Rerender =
     (s\<lparr>form_dirty := (form_values s \<noteq> default_values s),
        form_errors := (if is_submitted s then schema_issues (form_values s) else form_errors s)\<rparr>, st)"
| "page_step (s, st) (Tick n) = (s\<lparr>clock := clock s + n\<rparr>, st)"
| "page_step (s, st) FireTimer =
     (case timers s of
        [] \<Rightarrow> (s, st)
      | (due, t) # rest \<Rightarrow> (if due \<le> clock s then (check_fire t (s\<lparr>timers := rest\<rparr>), st) else (s, st)))"
| "page_step (s, st) (Reply i failed) =
     (if i < length (inflight s)
      then (let k = inflight s ! i;
                s1 = s\<lparr>inflight := remove_nth i (inflight s)\<rparr>
            in (check_reply (if failed then ProbeError else ProbeRows (probe_rows st k)) s1, st))
      else (s, st))"
| "page_step (s, st) (Click net) =
     (if interactive s \<and> submit_enabled s then handle_submit net s st else (s, st))"
| "page_step (s, st) (AdminLoaded net) =
     (if isLoading s
      then (admin_loaded (case net of Some e \<Rightarrow> Inl e | None \<Rightarrow> Inr (admin_ids st (emailAddress s))) s, st)
      else (s, st))"
| "page_step (s, st) (OtherClient t sl) =
     (case db_insert_event st t sl None [] of Inl _ \<Rightarrow> (s, st) | Inr (_, st') \<Rightarrow> (s, st'))"

definition page_run :: "add_state \<times> db \<Rightarrow> page_event list \<Rightarrow> add_state \<times> db" where
  "page_run p es = foldl page_step p es"

inductive reachable_page :: "add_state \<times> db \<Rightarrow> bool" where
  init: "db_unique st \<Longrightarrow> reachable_page (init_page h m off conn email, st)"
| step: "reachable_page p \<Longrightarrow> reachable_page (page_step p e)"

declare submit_date_string_def [js_eval] insert_failed_def [js_eval] onSubmit_def [js_eval]
  handle_submit_def [js_eval] admin_loaded_def [js_eval] interactive_def [js_eval]
  page_run_def [js_eval]

subsection \<open>Settling of the checker\<close>

text \<open>
  What the checker has outstanding (\<open>checker_view\<close>), the invariant that an
  outstanding check has a timer or a probe behind it (\<open>checker_pending\<close>),
  and the environment's schedule that lets every pending timer fire and
  answers every probe (\<open>drain\<close>): time passes until the last timer is due,
  each timer fires, each probe gets its reply.
\<close>

definition checker_view :: "add_state \<Rightarrow> bool \<times> (nat \<times> string) list \<times> string list" where
  "checker_view s = (isCheckingTitle s, timers s, inflight s)"

definition checker_pending :: "add_state \<Rightarrow> bool" where
  "checker_pending s \<longleftrightarrow> (isCheckingTitle s \<longrightarrow> timers s \<noteq> [] \<or> inflight s \<noteq> [])"

fun failed_reply :: "page_event \<Rightarrow> bool" where
  "failed_reply (Reply i failed) = failed"
| "failed_reply _ = False"

fun title_edit :: "page_event \<Rightarrow> bool" where
  "title_edit (EditField f x) = (f = EventTitle)"
| "title_edit _ = False"

definition drain :: "add_state \<Rightarrow> page_event list" where
  "drain s = Tick (sum_list (map fst (timers s))) # replicate (length (timers s)) FireTimer @
             replicate (length (timers s) + length (inflight s)) (Reply 0 False)"

text \<open>
  The shape of a row the page writes: a non-empty slug over \<open>[a-z0-9-]\<close>, and
  a title over the schema's title characters, with no capital letter and no
  white space at either end.
\<close>

definition event_row_typed :: "event_row \<Rightarrow> bool" where
  "event_row_typed r \<longleftrightarrow>
     event_slug r \<noteq> [] \<and> list_all slug_char (event_slug r) \<and>
     list_all (\<lambda>c. title_char c \<and> \<not> is_upper_alpha c \<and> \<not> is_latin1_upper c) (event_title r) \<and>
     js_trim (event_title r) = event_title r"

subsection \<open>Example runs\<close>

text \<open>
  A store holding one event, titled "foox", and a page opened at 19:05 in a
  UTC-05:00 zone by a connected admin; the runs below are the interleavings
  the claims about the checker are shown on.
\<close>

definition demo_db :: db where
  "demo_db =
     \<lparr>events = [\<lparr>ev_id = 0, event_title = ''foox'', event_slug = ''foox'', admin_id = Some 1,
                  event_date = ''Fri Mar 1 2024 19:05:00 -05:00''\<rparr>],
      photos = [], admins = [(''admin@walrus.xyz'', 1)], next_id = 1\<rparr>"

definition demo_page :: "add_state \<times> db" where
  "demo_page = (init_page 19 5 300 True ''admin@walrus.xyz'', demo_db)"

text \<open>Loaded, a date picked, and the form re-rendered: ready for a title.\<close>

definition demo_ready :: "page_event list" where
  "demo_ready = [AdminLoaded None, PickDate (Some \<lparr>year = 2024, month = 3, day = 8\<rparr>), Rerender]"

text \<open>"foo" is probed; before its reply the title becomes "foox", which is probed
  and answered first; the reply for "foo" arrives last.\<close>

definition trace_stale :: "page_event list" where
  "trace_stale = demo_ready @
     [EditField EventTitle ''foo'', Tick 500, FireTimer, Tick 100,
      EditField EventTitle ''foox'', Tick 500, FireTimer, Reply 1 False, Reply 0 False]"

text \<open>Three keystrokes 100 ms apart, then quiet.\<close>

definition trace_typing :: "page_event list" where
  "trace_typing = demo_ready @
     [EditField EventTitle ''a'', Tick 100, EditField EventTitle ''ab'', Tick 100,
      EditField EventTitle ''abc'', Tick 500, FireTimer, FireTimer, FireTimer]"

text \<open>A free title "party" is typed and checked.\<close>

definition trace_create :: "page_event list" where
  "trace_create = demo_ready @ [EditField EventTitle ''party'', Tick 500, FireTimer, Reply 0 False]"

text \<open>The probe finds "foox" taken; then the minute field is changed.\<close>

definition trace_closure :: "page_event list" where
  "trace_closure = demo_ready @
     [EditField EventTitle ''foox'', Tick 500, FireTimer, Reply 0 False,
      EditField EventTimeMin ''10'']"

text \<open>A probe that fails while nothing else is pending.\<close>

definition trace_probe_error :: "page_event list" where
  "trace_probe_error = demo_ready @ [EditField EventTitle ''foo'', Tick 500, FireTimer, Reply 0 True]"

subsection \<open>Frame lemmas\<close>

named_theorems page_frame "fields a handler leaves unchanged"

lemma insert_failed_frame [page_frame]:
  "form_values (insert_failed e s) = form_values s"
  "submitButtonEnabled (insert_failed e s) = submitButtonEnabled s"
  "isCheckingTitle (insert_failed e s) = isCheckingTitle s"
  "titleExists (insert_failed e s) = titleExists s"
  by (simp_all add: insert_failed_def Let_def)

lemma onSubmit_frame [page_frame]:
  "form_values (fst (onSubmit net d s st)) = form_values s"
  "submitButtonEnabled (fst (onSubmit net d s st)) = submitButtonEnabled s"
  "isCheckingTitle (fst (onSubmit net d s st)) = isCheckingTitle s"
  by (auto simp: onSubmit_def Let_def page_frame split: option.splits sum.splits prod.splits)

lemma handle_submit_frame [page_frame]:
  "form_values (fst (handle_submit net s st)) = form_values s"
  "submitButtonEnabled (fst (handle_submit net s st)) = submitButtonEnabled s"
  "isCheckingTitle (fst (handle_submit net s st)) = isCheckingTitle s"
  by (auto simp: handle_submit_def page_frame split: sum.splits prod.splits
           dest: arg_cong [where f = "\<lambda>p. form_values (fst p)"]
                 arg_cong [where f = "\<lambda>p. submitButtonEnabled (fst p)"]
                 arg_cong [where f = "\<lambda>p. isCheckingTitle (fst p)"])

lemma admin_loaded_frame [page_frame]:
  "form_values (admin_loaded r s) = form_values s"
  "submitButtonEnabled (admin_loaded r s) = submitButtonEnabled s"
  by (simp_all add: admin_loaded_def split: sum.splits)

subsection \<open>The gate invariant\<close>

definition gate_inv :: "add_state \<Rightarrow> bool" where
  "gate_inv s \<longleftrightarrow> (submitButtonEnabled s \<longrightarrow> is_form_complete (form_values s))"

lemma gate_inv_watch_other: "gate_inv (watch_other s)"
  by (simp add: gate_inv_def watch_other_def form_is_valid_def)

lemma gate_inv_watch_title: "gate_inv (watch_title s)"
  by (simp add: gate_inv_def watch_title_def Let_def watch_other_def form_is_valid_def)

lemma gate_inv_check_fire: "gate_inv s \<Longrightarrow> gate_inv (check_fire t s)"
  by (simp add: gate_inv_def check_fire_def)

lemma gate_inv_check_reply: "gate_inv s \<Longrightarrow> gate_inv (check_reply r s)"
  by (cases r) (simp_all add: gate_inv_def check_reply_def form_is_valid_def Let_def)

lemma gate_inv_cong:
  "submitButtonEnabled s' = submitButtonEnabled s \<Longrightarrow> form_values s' = form_values s \<Longrightarrow>
     gate_inv s' = gate_inv s"
  by (simp add: gate_inv_def)

lemma gate_inv_page_step:
  assumes inv: "gate_inv s"
  shows "gate_inv (fst (page_step (s, st) e))"
proof (cases e)
  case (EditField f x)
  with inv show ?thesis by (simp add: gate_inv_watch_other gate_inv_watch_title)
next
  case (PickDate d)
  with inv show ?thesis by (simp add: gate_inv_watch_other)
next
  case (FireTimer)
  from inv have "gate_inv (s\<lparr>timers := rest\<rparr>)" for rest by (simp add: gate_inv_def)
  with inv FireTimer show ?thesis
    by (auto simp: gate_inv_check_fire split: list.splits prod.splits)
next
  case (Reply i failed)
  from inv have "gate_inv (s\<lparr>inflight := xs\<rparr>)" for xs by (simp add: gate_inv_def)
  with inv Reply show ?thesis
    by (auto simp: gate_inv_check_reply Let_def)
next
  case (Click net)
  with inv show ?thesis
    by (auto simp: gate_inv_def page_frame)
next
  case (AdminLoaded net)
  with inv show ?thesis
    by (auto simp: gate_inv_def page_frame)
qed (use inv in \<open>auto simp: gate_inv_def split: sum.splits prod.splits\<close>)

lemma reachable_gate_inv: "reachable_page p \<Longrightarrow> gate_inv (fst p)"
proof (induction rule: reachable_page.induct)
  case (init st h m off conn email)
  then show ?case by (simp add: gate_inv_def init_page_def)
next
  case (step p e)
  obtain s st where p: "p = (s, st)" by (cases p)
  with step.IH show ?case by (simp add: gate_inv_page_step)
qed

subsection \<open>Runs and reachability\<close>

lemma page_run_Cons: "page_run p (e # es) = page_run (page_step p e) es"
  by (simp add: page_run_def)

lemma reachable_page_run: "reachable_page p \<Longrightarrow> reachable_page (page_run p es)"
proof (induction es arbitrary: p)
  case Nil
  then show ?case by (simp add: page_run_def)
next
  case (Cons e es)
  from Cons.prems have "reachable_page (page_step p e)" by (rule reachable_page.step)
  then show ?case by (simp add: page_run_Cons Cons.IH)
qed

lemma reachable_demo: "reachable_page demo_page"
  unfolding demo_page_def by (rule reachable_page.init) (simp add: demo_db_def db_unique_def)

lemmas demo_defs = demo_page_def demo_db_def demo_ready_def trace_stale_def trace_typing_def
  trace_closure_def trace_create_def trace_probe_error_def

subsection \<open>The checker settles, or stalls\<close>

lemma checker_view_frame [page_frame]:
  "checker_view (insert_failed e s) = checker_view s"
  "checker_view (fst (onSubmit net d s st)) = checker_view s"
  "checker_view (fst (handle_submit net s st)) = checker_view s"
  "checker_view (admin_loaded r s) = checker_view s"
  "checker_view (watch_other s) = checker_view s"
  by (auto simp: checker_view_def insert_failed_def onSubmit_def handle_submit_def admin_loaded_def
      watch_other_def Let_def split: option.splits sum.splits prod.splits)

lemma checker_view_cong:
  "checker_view s' = checker_view s \<Longrightarrow> checker_pending s' = checker_pending s"
  by (simp add: checker_view_def checker_pending_def)

lemma checker_pending_step:
  assumes pend: "checker_pending s" and ok: "\<not> failed_reply e"
  shows "checker_pending (fst (page_step (s, st) e))"
proof (cases e)
  case (EditField f x)
  with pend show ?thesis
    by (auto simp: checker_pending_def watch_title_def Let_def watch_other_def)
next
  case (PickDate d)
  with pend show ?thesis by (simp add: checker_pending_def watch_other_def)
next
  case FireTimer
  with pend show ?thesis
    by (auto simp: checker_pending_def check_fire_def split: list.splits prod.splits)
next
  case (Reply i failed)
  with pend ok show ?thesis
    by (auto simp: checker_pending_def check_reply_def Let_def)
next
  case (Click net)
  with pend show ?thesis by (auto simp: checker_view_cong [OF checker_view_frame(3)])
next
  case (AdminLoaded net)
  with pend show ?thesis by (auto simp: checker_view_cong [OF checker_view_frame(4)])
qed (use pend in \<open>auto simp: checker_pending_def split: sum.splits prod.splits\<close>)

lemma page_run_append: "page_run p (xs @ ys) = page_run (page_run p xs) ys"
  by (simp add: page_run_def)

lemma fire_all:
  assumes "\<forall>x\<in>set (timers s). fst x \<le> clock s" and "checker_pending s"
  shows "timers (fst (page_run (s, st) (replicate (length (timers s)) FireTimer))) = [] \<and>
         checker_pending (fst (page_run (s, st) (replicate (length (timers s)) FireTimer))) \<and>
         snd (page_run (s, st) (replicate (length (timers s)) FireTimer)) = st \<and>
         length (inflight (fst (page_run (s, st) (replicate (length (timers s)) FireTimer)))) \<le>
           length (inflight s) + length (timers s)"
  using assms
proof (induction "timers s" arbitrary: s)
  case Nil
  then show ?case by (simp add: page_run_def)
next
  case (Cons x rest)
  obtain due t where x: "x = (due, t)" by (cases x)
  define s1 where "s1 = check_fire t (s\<lparr>timers := rest\<rparr>)"
  have "(due, t) \<in> set (timers s)" using Cons.hyps(2) x by (metis list.set_intros(1))
  then have due: "due \<le> clock s" using Cons.prems(1) by force
  then have step: "page_step (s, st) FireTimer = (s1, st)"
    using Cons.hyps(2) [symmetric] x by (simp add: s1_def)
  have t1: "timers s1 = rest" and c1: "clock s1 = clock s"
    and l1: "length (inflight s1) \<le> Suc (length (inflight s))"
    by (simp_all add: s1_def check_fire_def)
  have "checker_pending s1"
    using checker_pending_step [OF Cons.prems(2), of FireTimer st] step by simp
  moreover have "\<forall>x\<in>set (timers s1). fst x \<le> clock s1"
    using Cons.prems(1) Cons.hyps(2) [symmetric] t1 c1 by auto
  ultimately have "timers (fst (page_run (s1, st) (replicate (length (timers s1)) FireTimer))) = [] \<and>
         checker_pending (fst (page_run (s1, st) (replicate (length (timers s1)) FireTimer))) \<and>
         snd (page_run (s1, st) (replicate (length (timers s1)) FireTimer)) = st \<and>
         length (inflight (fst (page_run (s1, st) (replicate (length (timers s1)) FireTimer)))) \<le>
           length (inflight s1) + length (timers s1)"
    using Cons.hyps(1) [of s1] t1 by simp
  then show ?case using step t1 l1 Cons.hyps(2) [symmetric] by (simp add: page_run_Cons)
qed

lemma reply_all:
  assumes "isCheckingTitle s \<longrightarrow> inflight s \<noteq> []" and "length (inflight s) \<le> n"
  shows "\<not> isCheckingTitle (fst (page_run (s, st) (replicate n (Reply 0 False)))) \<and>
         inflight (fst (page_run (s, st) (replicate n (Reply 0 False)))) = [] \<and>
         timers (fst (page_run (s, st) (replicate n (Reply 0 False)))) = timers s"
  using assms
proof (induction n arbitrary: s)
  case 0
  then show ?case by (simp add: page_run_def)
next
  case (Suc n)
  show ?case
  proof (cases "inflight s")
    case Nil
    then have "page_step (s, st) (Reply 0 False) = (s, st)" by simp
    with Suc.IH [of s] Suc.prems Nil show ?thesis by (simp add: page_run_Cons)
  next
    case (Cons k ks)
    define s1 where "s1 = check_reply (ProbeRows (probe_rows st k)) (s\<lparr>inflight := ks\<rparr>)"
    have step: "page_step (s, st) (Reply 0 False) = (s1, st)"
      using Cons by (simp add: s1_def remove_nth_def)
    have "\<not> isCheckingTitle s1" "inflight s1 = ks" "timers s1 = timers s"
      by (simp_all add: s1_def check_reply_def Let_def)
    with Suc.IH [of s1] Suc.prems Cons step show ?thesis by (simp add: page_run_Cons)
  qed
qed

lemma tick_all_due:
  "\<forall>x\<in>set (timers s). fst x \<le> clock s + sum_list (map fst (timers s))"
proof
  fix x assume "x \<in> set (timers s)"
  then have "fst x \<in> set (map fst (timers s))" by simp
  then have "fst x \<le> sum_list (map fst (timers s))" by (rule member_le_sum_list) simp
  then show "fst x \<le> clock s + sum_list (map fst (timers s))" by simp
qed

lemma checker_settles:
  assumes "checker_pending s"
  shows "\<not> isCheckingTitle (fst (page_run (s, st) (drain s))) \<and>
         timers (fst (page_run (s, st) (drain s))) = [] \<and> inflight (fst (page_run (s, st) (drain s))) = []"
proof -
  define s0 where "s0 = s\<lparr>clock := clock s + sum_list (map fst (timers s))\<rparr>"
  define p1 where "p1 = page_run (s0, st) (replicate (length (timers s)) FireTimer)"
  have t0: "timers s0 = timers s" by (simp add: s0_def)
  have "checker_pending s0" using assms by (simp add: s0_def checker_pending_def)
  moreover have "\<forall>x\<in>set (timers s0). fst x \<le> clock s0" using tick_all_due [of s] by (simp add: s0_def)
  ultimately have f: "timers (fst p1) = [] \<and> checker_pending (fst p1) \<and> snd p1 = st \<and>
                      length (inflight (fst p1)) \<le> length (inflight s) + length (timers s)"
    using fire_all [of s0 st] t0 by (simp add: p1_def s0_def)
  have run: "page_run (s, st) (drain s) =
               page_run p1 (replicate (length (timers s) + length (inflight s)) (Reply 0 False))"
    by (simp add: drain_def page_run_Cons page_run_append p1_def s0_def)
  show ?thesis using reply_all [of "fst p1" "length (timers s) + length (inflight s)" "snd p1"] f run
    by (cases p1) (simp add: checker_pending_def)
qed

lemma checker_pending_run:
  assumes "checker_pending s" and "\<forall>e\<in>set es. \<not> failed_reply e"
  shows "checker_pending (fst (page_run (s, st) es))"
  using assms
proof (induction es arbitrary: s st)
  case Nil
  then show ?case by (simp add: page_run_def)
next
  case (Cons e es)
  obtain s1 st1 where p: "page_step (s, st) e = (s1, st1)" by (cases "page_step (s, st) e")
  have "checker_pending s1" using checker_pending_step [OF Cons.prems(1), of e st] Cons.prems(2) p by simp
  with Cons.IH [of s1 st1] Cons.prems(2) p show ?case by (simp add: page_run_Cons)
qed

lemma stall_step:
  assumes "isCheckingTitle s" and "timers s = []" and "inflight s = []" and "\<not> title_edit e"
  shows "isCheckingTitle (fst (page_step (s, st) e)) \<and> timers (fst (page_step (s, st) e)) = [] \<and>
         inflight (fst (page_step (s, st) e)) = []"
proof (cases e)
  case (EditField f x)
  with assms show ?thesis by (simp add: watch_other_def)
next
  case (PickDate d)
  with assms show ?thesis by (simp add: watch_other_def)
next
  case (Click net)
  with assms show ?thesis by (simp add: submit_enabled_def)
next
  case (AdminLoaded net)
  with assms checker_view_frame(4) [of _ s] show ?thesis by (simp add: checker_view_def)
qed (use assms in \<open>simp_all split: sum.splits prod.splits\<close>)

subsection \<open>Lemmas for the general claims\<close>

lemma probe_rows_nonempty: "probe_rows st k \<noteq> [] \<longleftrightarrow> k \<in> set (map event_title (events st))"
  by (auto simp: probe_rows_def filter_empty_conv)

lemma handle_submit_inserts:
  assumes "snd (handle_submit net s st) \<noteq> st"
  shows "\<exists>d r. EventSchema_parse (form_values s) = Inr d \<and>
           db_insert_event st (eventTitle d) (eventSlug d) (currentAdminId s) (submit_date_string d) =
             Inr (r, snd (handle_submit net s st))"
  using assms by (auto simp: handle_submit_def onSubmit_def Let_def
                       split: sum.splits option.splits prod.splits if_splits)

lemma watch_title_fields:
  "timers (watch_title s) = timers s @ [(clock s + 500, eventTitle (form_values s))]"
  "clock (watch_title s) = clock s" "queries (watch_title s) = queries s"
  "isLoading (watch_title s) = isLoading s" "isConnected (watch_title s) = isConnected s"
  "navigated (watch_title s) = navigated s"
  by (simp_all add: watch_title_def watch_other_def Let_def)

lemma title_edits_run:
  assumes "interactive s"
  shows "timers (fst (page_run (s, st) (map (EditField EventTitle) ts))) =
           timers s @ map (\<lambda>t. (clock s + 500, t)) ts \<and>
         clock (fst (page_run (s, st) (map (EditField EventTitle) ts))) = clock s \<and>
         queries (fst (page_run (s, st) (map (EditField EventTitle) ts))) = queries s"
  using assms
proof (induction ts arbitrary: s)
  case Nil
  then show ?case by (simp add: page_run_def)
next
  case (Cons t ts)
  define s1 where "s1 = watch_title (s\<lparr>form_values := (form_values s)\<lparr>eventTitle := t\<rparr>\<rparr>)"
  have step: "page_step (s, st) (EditField EventTitle t) = (s1, st)"
    using Cons.prems by (simp add: s1_def)
  have "interactive s1" using Cons.prems by (simp add: s1_def interactive_def watch_title_fields)
  moreover have "timers s1 = timers s @ [(clock s + 500, t)]" "clock s1 = clock s" "queries s1 = queries s"
    by (simp_all add: s1_def watch_title_fields)
  ultimately show ?case using Cons.IH [of s1] step by (simp add: page_run_Cons)
qed

lemma fire_titles:
  assumes "timers s = map (\<lambda>t. (c, t)) ts" and "c \<le> clock s" and "[] \<notin> set ts"
  shows "queries (fst (page_run (s, st) (replicate (length ts) FireTimer))) = queries s @ map probe_key ts"
  using assms
proof (induction ts arbitrary: s)
  case Nil
  then show ?case by (simp add: page_run_def)
next
  case (Cons t ts)
  define s1 where "s1 = check_fire t (s\<lparr>timers := map (\<lambda>t. (c, t)) ts\<rparr>)"
  have step: "page_step (s, st) FireTimer = (s1, st)"
    using Cons.prems by (simp add: s1_def)
  have "timers s1 = map (\<lambda>t. (c, t)) ts" "clock s1 = clock s" "queries s1 = queries s @ [probe_key t]"
    using Cons.prems(3) by (auto simp: s1_def check_fire_def)
  with Cons.IH [of s1] Cons.prems step show ?case by (simp add: page_run_Cons)
qed

lemma page_step_watch_closure:
  "watch_titleExists (fst (page_step (s, st) e)) = watch_titleExists s"
  by (cases e) (auto simp: watch_title_def watch_other_def check_fire_def check_reply_def Let_def
      handle_submit_def onSubmit_def insert_failed_def admin_loaded_def
      split: list.splits prod.splits sum.splits option.splits)

lemma reachable_watch_closure: "reachable_page p \<Longrightarrow> \<not> watch_titleExists (fst p)"
proof (induction rule: reachable_page.induct)
  case (init st h m off conn email)
  then show ?case by (simp add: init_page_def)
next
  case (step p e)
  obtain s st where "p = (s, st)" by (cases p)
  with step.IH show ?case by (simp add: page_step_watch_closure)
qed

lemma page_step_not_loading:
  "\<not> isLoading s \<Longrightarrow>
     \<not> isLoading (fst (page_step (s, st) e)) \<and> currentAdminId (fst (page_step (s, st) e)) = currentAdminId s"
  by (cases e) (auto simp: watch_title_def watch_other_def check_fire_def check_reply_def Let_def
      handle_submit_def onSubmit_def insert_failed_def
      split: list.splits prod.splits sum.splits option.splits)

lemma page_step_loading:
  "isLoading s \<Longrightarrow> isLoading (fst (page_step (s, st) e)) \<Longrightarrow>
     currentAdminId (fst (page_step (s, st) e)) = currentAdminId s \<and>
     errorMessage (fst (page_step (s, st) e)) = errorMessage s"
  by (cases e) (auto simp: interactive_def check_fire_def check_reply_def admin_loaded_def Let_def
      split: list.splits prod.splits sum.splits option.splits)

lemma reachable_loading:
  "reachable_page p \<Longrightarrow> isLoading (fst p) \<Longrightarrow> currentAdminId (fst p) = None \<and> errorMessage (fst p) = None"
proof (induction rule: reachable_page.induct)
  case (init st h m off conn email)
  then show ?case by (simp add: init_page_def)
next
  case (step p e)
  obtain s st where p: "p = (s, st)" by (cases p)
  have "isLoading s" using step.prems page_step_not_loading [of s st e] p by auto
  with step p page_step_loading [of s st e] show ?case by simp
qed

lemma admin_id_persists:
  "\<not> isLoading (fst p) \<Longrightarrow> currentAdminId (fst (page_run p es)) = currentAdminId (fst p)"
proof (induction es arbitrary: p)
  case Nil
  then show ?case by (simp add: page_run_def)
next
  case (Cons e es)
  obtain s st where p: "p = (s, st)" by (cases p)
  with Cons.prems page_step_not_loading [of s st e] Cons.IH [of "page_step p e"] show ?case
    by (simp add: page_run_Cons)
qed

lemma click_row_admin:
  "events (snd (page_step (s, st) (Click net))) = events st \<or>
   (\<exists>r. events (snd (page_step (s, st) (Click net))) = events st @ [r] \<and> admin_id r = currentAdminId s)"
proof (cases "snd (handle_submit net s st) = st \<or> \<not> (interactive s \<and> submit_enabled s)")
  case True
  then show ?thesis by auto
next
  case False
  then obtain d r where "db_insert_event st (eventTitle d) (eventSlug d) (currentAdminId s) (submit_date_string d) =
      Inr (r, snd (handle_submit net s st))" and en: "interactive s \<and> submit_enabled s"
    using handle_submit_inserts [of net s st] by blast
  from db_insert_event_Inr [OF this(1)] en show ?thesis by auto
qed

subsection \<open>Claims on the checker and the gate\<close>

text \<open>
  C1: in every reachable state of the page, the Create Event button is
  enabled only when every field of the form is filled in and no title check
  is outstanding.
\<close>

theorem submit_enabled_complete:
  assumes "reachable_page p" and "submit_enabled (fst p)"
  shows "is_form_complete (form_values (fst p)) \<and> \<not> isCheckingTitle (fst p)"
  using reachable_gate_inv [OF assms(1)] assms(2) by (simp add: gate_inv_def submit_enabled_def)

theorem submit_enabled_complete_witness:
  "reachable_page (page_run demo_page trace_stale) \<and> submit_enabled (fst (page_run demo_page trace_stale)) \<and>
   is_form_complete (form_values (fst (page_run demo_page trace_stale)))"
proof -
  have r: "reachable_page (page_run demo_page trace_stale)"
    by (rule reachable_page_run [OF reachable_demo])
  have e: "submit_enabled (fst (page_run demo_page trace_stale))"
    by (simp add: demo_defs js_eval)
  show ?thesis using r e submit_enabled_complete [OF r e] by simp
qed

text \<open>
  C3: a reply is applied whatever the title is now: when a probe for a key
  the store does not hold is answered while the current title is taken
  (so the key is a superseded title's), the page clears \<open>titleExists\<close>
  and enables the button for a form that is otherwise valid.
\<close>

theorem stale_reply_applied:
  assumes "i < length (inflight s)" and "inflight s ! i \<notin> set (map event_title (events st))"
    and "probe_key (eventTitle (form_values s)) \<in> set (map event_title (events st))"
    and "form_is_valid s False"
  shows "\<not> titleExists (fst (page_step (s, st) (Reply i False))) \<and>
         submit_enabled (fst (page_step (s, st) (Reply i False)))"
proof -
  have "probe_rows st (inflight s ! i) = []" using assms(2) probe_rows_nonempty by blast
  with assms(1,4) show ?thesis
    by (simp add: check_reply_def submit_enabled_def form_is_valid_def)
qed

theorem stale_reply_applied_witness:
  "0 < length (inflight (fst (page_run demo_page (butlast trace_stale)))) \<and>
   inflight (fst (page_run demo_page (butlast trace_stale))) ! 0 = ''foo'' \<and>
   ''foo'' \<notin> set (map event_title (events (snd (page_run demo_page (butlast trace_stale))))) \<and>
   eventTitle (form_values (fst (page_run demo_page (butlast trace_stale)))) = ''foox'' \<and>
   probe_key ''foox'' \<in> set (map event_title (events (snd (page_run demo_page (butlast trace_stale))))) \<and>
   \<not> titleExists (fst (page_step (page_run demo_page (butlast trace_stale)) (Reply 0 False))) \<and>
   submit_enabled (fst (page_step (page_run demo_page (butlast trace_stale)) (Reply 0 False)))"
proof -
  have h: "0 < length (inflight (fst (page_run demo_page (butlast trace_stale))))"
    "inflight (fst (page_run demo_page (butlast trace_stale))) ! 0 \<notin>
       set (map event_title (events (snd (page_run demo_page (butlast trace_stale)))))"
    "probe_key (eventTitle (form_values (fst (page_run demo_page (butlast trace_stale))))) \<in>
       set (map event_title (events (snd (page_run demo_page (butlast trace_stale)))))"
    "form_is_valid (fst (page_run demo_page (butlast trace_stale))) False"
    by (simp_all add: demo_defs js_eval)
  have v: "inflight (fst (page_run demo_page (butlast trace_stale))) ! 0 = ''foo''"
    "eventTitle (form_values (fst (page_run demo_page (butlast trace_stale)))) = ''foox''"
    by (simp_all add: demo_defs js_eval)
  show ?thesis using h v stale_reply_applied [OF h] by simp
qed

text \<open>
  C4: no pending probe is cancelled: for every page on screen with no timer
  pending and every sequence of non-empty titles typed within the 500 ms
  window, once the delay passes each intermediate title is queried, one
  store query per keystroke.
\<close>

theorem debounce_fires_every_keystroke:
  assumes "interactive s" and "timers s = []" and "[] \<notin> set ts"
  shows "queries (fst (page_run (s, st) (map (EditField EventTitle) ts @ Tick 500 # replicate (length ts) FireTimer))) =
           queries s @ map probe_key ts"
proof -
  define p1 where "p1 = page_run (s, st) (map (EditField EventTitle) ts)"
  note e = title_edits_run [OF assms(1), of st ts]
  define s2 where "s2 = (fst p1)\<lparr>clock := clock s + 500\<rparr>"
  have "page_step p1 (Tick 500) = (s2, snd p1)"
    using e by (cases p1) (simp add: p1_def s2_def)
  moreover have "timers s2 = map (\<lambda>t. (clock s + 500, t)) ts" "queries s2 = queries s"
    using e assms(2) by (simp_all add: s2_def p1_def)
  ultimately show ?thesis
    using fire_titles [of s2 "clock s + 500" ts "snd p1"] assms(3)
    by (simp add: page_run_append page_run_Cons p1_def [symmetric] s2_def)
qed


theorem debounce_fires_every_keystroke_witness:
  "interactive (fst (page_run demo_page demo_ready)) \<and> timers (fst (page_run demo_page demo_ready)) = [] \<and>
   [] \<notin> set [''a'', ''ab'', ''abc''] \<and>
   queries (fst (page_run (fst (page_run demo_page demo_ready), snd (page_run demo_page demo_ready))
      (map (EditField EventTitle) [''a'', ''ab'', ''abc''] @ Tick 500 # replicate 3 FireTimer))) =
     [''a'', ''ab'', ''abc'']"
proof -
  have h: "interactive (fst (page_run demo_page demo_ready))" "timers (fst (page_run demo_page demo_ready)) = []"
    "[] \<notin> set [''a'', ''ab'', ''abc'']"
    by (simp_all add: demo_defs js_eval)
  have q: "queries (fst (page_run demo_page demo_ready)) = []" by (simp add: demo_defs js_eval)
  show ?thesis
    using h q debounce_fires_every_keystroke [OF h, of "snd (page_run demo_page demo_ready)"]
    by (simp add: probe_key_def js_eval numeral_3_eq_3)
qed

text \<open>
  C5: in every reachable state, a change to a field other than the title
  enables the button from the \<open>titleExists\<close> captured at the first render:
  with the title known to be taken and no check outstanding, the button is
  enabled as soon as the rest of the form is valid.
\<close>

theorem stale_closure_enables_submit:
  assumes "reachable_page p" and "interactive (fst p)" and "f \<noteq> EventTitle" and "titleExists (fst p)"
    and "\<not> isCheckingTitle (fst p)"
    and "form_is_valid ((fst p)\<lparr>form_values := set_field f x (form_values (fst p))\<rparr>) False"
  shows "titleExists (fst (page_step p (EditField f x))) \<and> submit_enabled (fst (page_step p (EditField f x)))"
proof -
  have "\<not> watch_titleExists (fst p)" by (rule reachable_watch_closure [OF assms(1)])
  with assms(2-6) show ?thesis
    by (cases p) (simp add: watch_other_def submit_enabled_def)
qed

theorem stale_closure_enables_submit_witness:
  "reachable_page (page_run demo_page (butlast trace_closure)) \<and>
   titleExists (fst (page_run demo_page (butlast trace_closure))) \<and>
   submit_enabled (fst (page_step (page_run demo_page (butlast trace_closure)) (EditField EventTimeMin ''10'')))"
proof -
  have h: "reachable_page (page_run demo_page (butlast trace_closure))"
    by (rule reachable_page_run [OF reachable_demo])
  have c: "interactive (fst (page_run demo_page (butlast trace_closure)))" "EventTimeMin \<noteq> EventTitle"
    "titleExists (fst (page_run demo_page (butlast trace_closure)))"
    "\<not> isCheckingTitle (fst (page_run demo_page (butlast trace_closure)))"
    "form_is_valid ((fst (page_run demo_page (butlast trace_closure)))\<lparr>form_values :=
        set_field EventTimeMin ''10'' (form_values (fst (page_run demo_page (butlast trace_closure))))\<rparr>) False"
    by (simp_all add: demo_defs js_eval)
  show ?thesis using h c stale_closure_enables_submit [OF h c] by simp
qed

text \<open>
  The defensive check of onSubmit holds: a click while \<open>titleExists\<close> is
  set never writes to the store.
\<close>

theorem click_known_title_no_write:
  assumes "titleExists (fst p)"
  shows "snd (page_step p (Click net)) = snd p"
proof (cases p)
  case (Pair s st)
  with assms show ?thesis
    by (auto simp: handle_submit_def onSubmit_def split: sum.splits prod.splits)
qed

theorem click_known_title_no_write_witness:
  "titleExists (fst (page_run demo_page trace_closure)) \<and>
   snd (page_step (page_run demo_page trace_closure) (Click None)) = snd (page_run demo_page trace_closure)"
proof -
  have t: "titleExists (fst (page_run demo_page trace_closure))"
    by (simp add: demo_defs js_eval)
  show ?thesis using t click_known_title_no_write [OF t, of None] by simp
qed

subsection \<open>Claims on the submitter\<close>

lemma details_title_violation:
  "err_details (unique_violation ''event_title'' t) = ''Key (event_title)='' @ CHR ''('' # (t @ CHR '')'' # '' already exists.'')"
  by (simp add: unique_violation_def)

lemma title_violation_mentions:
  "js_includes (err_details (unique_violation ''event_title'' t)) ''event_title'' \<and>
   (js_includes (err_details (unique_violation ''event_title'' t)) ''event_slug'' \<longleftrightarrow> sublist ''event_slug'' t)"
proof -
  let ?D = "''Key (event_title)='' @ CHR ''('' # (t @ CHR '')'' # '' already exists.'')"
  have title: "sublist ''event_title'' ?D"
    using sublist_within [of "''event_title''" "''event_title''" "''Key (''"
        "'')='' @ CHR ''('' # (t @ CHR '')'' # '' already exists.'')"] by simp
  have fwd: "sublist ''event_slug'' t" if d: "sublist ''event_slug'' ?D"
  proof -
    have "sublist ''event_slug'' ''Key (event_title)='' \<or>
        sublist ''event_slug'' (t @ CHR '')'' # '' already exists.'')"
      using d by (rule sublist_split_at [rotated]) simp
    moreover have "\<not> sublist ''event_slug'' ''Key (event_title)=''" by (simp add: js_eval)
    ultimately have "sublist ''event_slug'' (t @ CHR '')'' # '' already exists.'')" by simp
    then have "sublist ''event_slug'' t \<or> sublist ''event_slug'' '' already exists.''"
      by (rule sublist_split_at [rotated]) simp
    moreover have "\<not> sublist ''event_slug'' '' already exists.''" by (simp add: js_eval)
    ultimately show ?thesis by simp
  qed
  have bwd: "sublist ''event_slug'' ?D" if "sublist ''event_slug'' t"
    using sublist_within [OF that, of "''Key (event_title)='' @ [CHR ''('']"
        "CHR '')'' # '' already exists.''"] by simp
  show ?thesis
    unfolding js_includes_def details_title_violation using title fwd bwd by blast
qed

text \<open>
  C9: a conflict on the title column only is reported as the title message,
  the store is left as it was, and the page stays on the form.
\<close>

theorem title_conflict_reports_title:
  assumes "\<not> titleExists s" and "eventTitle d \<in> set (map event_title (events st))"
    and "\<not> sublist ''event_slug'' (eventTitle d)"
  shows "errorMessage (fst (onSubmit None d s st)) = Some msg_title_taken \<and>
         snd (onSubmit None d s st) = st \<and> navigated (fst (onSubmit None d s st)) = navigated s"
proof -
  let ?e = "unique_violation ''event_title'' (eventTitle d)"
  have ins: "db_insert_event st (eventTitle d) (eventSlug d) (currentAdminId s) (submit_date_string d) = Inl ?e"
    using assms(2) by (simp add: db_insert_event_def)
  have "err_code ?e = ''23505''" by (simp add: unique_violation_def)
  moreover have "js_includes (err_details ?e) ''event_title''"
    and "\<not> js_includes (err_details ?e) ''event_slug''"
    using title_violation_mentions [of "eventTitle d"] assms(3) by simp_all
  ultimately show ?thesis
    using assms(1) ins by (simp add: onSubmit_def insert_failed_def Let_def)
qed

theorem title_conflict_reports_title_witness:
  "\<not> titleExists (init_page 19 5 300 True ''admin@walrus.xyz'') \<and>
   ''foox'' \<in> set (map event_title (events demo_db)) \<and> \<not> sublist ''event_slug'' ''foox'' \<and>
   errorMessage (fst (onSubmit None (initial_values 19 5 300\<lparr>eventTitle := ''foox'', eventSlug := ''new''\<rparr>)
                   (init_page 19 5 300 True ''admin@walrus.xyz'') demo_db)) = Some msg_title_taken"
proof -
  have h: "\<not> titleExists (init_page 19 5 300 True ''admin@walrus.xyz'')"
    "eventTitle (initial_values 19 5 300\<lparr>eventTitle := ''foox'', eventSlug := ''new''\<rparr>) \<in> set (map event_title (events demo_db))"
    "\<not> sublist ''event_slug'' (eventTitle (initial_values 19 5 300\<lparr>eventTitle := ''foox'', eventSlug := ''new''\<rparr>))"
    by (simp_all add: init_page_def demo_db_def js_eval)
  show ?thesis using h title_conflict_reports_title [OF h] by simp
qed

text \<open>
  C10: the column is read off the detail text, so for every taken title that
  contains "event_slug" a click reports a taken slug, and the store is
  unchanged.
\<close>

theorem title_event_slug_reported_as_slug:
  assumes "\<not> titleExists s" and "eventTitle d \<in> set (map event_title (events st))"
    and "sublist ''event_slug'' (eventTitle d)"
  shows "errorMessage (fst (onSubmit None d s st)) = Some msg_slug_taken \<and> snd (onSubmit None d s st) = st"
proof -
  let ?e = "unique_violation ''event_title'' (eventTitle d)"
  have ins: "db_insert_event st (eventTitle d) (eventSlug d) (currentAdminId s) (submit_date_string d) = Inl ?e"
    using assms(2) by (simp add: db_insert_event_def)
  have "err_code ?e = ''23505''" by (simp add: unique_violation_def)
  moreover have "js_includes (err_details ?e) ''event_slug''"
    using title_violation_mentions [of "eventTitle d"] assms(3) by simp
  ultimately show ?thesis
    using assms(1) ins by (simp add: onSubmit_def insert_failed_def Let_def)
qed


theorem title_event_slug_reported_as_slug_witness:
  "\<not> titleExists (init_page 19 5 300 True ''admin@walrus.xyz'') \<and>
   ''event_slug'' \<in> set (map event_title (events (demo_db\<lparr>events := events demo_db @
      [\<lparr>ev_id = 1, event_title = ''event_slug'', event_slug = ''other'', admin_id = Some 1, event_date = ''x''\<rparr>],
      next_id := 2\<rparr>))) \<and>
   errorMessage (fst (onSubmit None (initial_values 19 5 300\<lparr>eventTitle := ''event_slug'', eventSlug := ''fresh''\<rparr>)
      (init_page 19 5 300 True ''admin@walrus.xyz'')
      (demo_db\<lparr>events := events demo_db @ [\<lparr>ev_id = 1, event_title = ''event_slug'', event_slug = ''other'',
                                             admin_id = Some 1, event_date = ''x''\<rparr>], next_id := 2\<rparr>)))
   = Some msg_slug_taken"
proof -
  have h: "\<not> titleExists (init_page 19 5 300 True ''admin@walrus.xyz'')"
    "eventTitle (initial_values 19 5 300\<lparr>eventTitle := ''event_slug'', eventSlug := ''fresh''\<rparr>) \<in>
       set (map event_title (events (demo_db\<lparr>events := events demo_db @
      [\<lparr>ev_id = 1, event_title = ''event_slug'', event_slug = ''other'', admin_id = Some 1, event_date = ''x''\<rparr>],
      next_id := 2\<rparr>)))"
    "sublist ''event_slug'' (eventTitle (initial_values 19 5 300\<lparr>eventTitle := ''event_slug'', eventSlug := ''fresh''\<rparr>))"
    by (simp_all add: init_page_def demo_db_def)
  show ?thesis using h title_event_slug_reported_as_slug [OF h] by simp
qed

text \<open>
  C15: the key the checker probes is the title onSubmit stores: for every form
  the schema accepts, the stored title is \<open>value.eventTitle.toLowerCase().trim()\<close>
  of the typed title.
\<close>

theorem probe_key_is_stored_title:
  assumes "EventSchema_parse v = Inr d"
  shows "eventTitle d = probe_key (eventTitle v)"
  using EventSchema_parse_Inr [OF assms] by (simp add: probe_key_def js_trim_toLowerCase)

theorem probe_key_is_stored_title_witness:
  "EventSchema_parse (initial_values 19 5 300\<lparr>eventTitle := '' Party '', eventSlug := ''party'',
      eventDate := Some \<lparr>year = 2024, month = 3, day = 8\<rparr>\<rparr>) =
     Inr (initial_values 19 5 300\<lparr>eventTitle := ''party'', eventSlug := ''party'',
      eventDate := Some \<lparr>year = 2024, month = 3, day = 8\<rparr>\<rparr>) \<and>
   ''party'' = probe_key '' Party ''"
proof -
  have p: "EventSchema_parse (initial_values 19 5 300\<lparr>eventTitle := '' Party '', eventSlug := ''party'',
      eventDate := Some \<lparr>year = 2024, month = 3, day = 8\<rparr>\<rparr>) =
     Inr (initial_values 19 5 300\<lparr>eventTitle := ''party'', eventSlug := ''party'',
      eventDate := Some \<lparr>year = 2024, month = 3, day = 8\<rparr>\<rparr>)"
    by (simp add: js_eval)
  show ?thesis using p probe_key_is_stored_title [OF p] by simp
qed

subsection \<open>Claims on the checker in isolation and on the store\<close>

text \<open>
  C6: without overlapping edits the checker is right: from a form with no
  timer and no probe pending, typing a non-empty title, waiting 500 ms and
  receiving the reply sets \<open>titleExists\<close> to whether the store holds the
  normalised title, ends the check, and issues exactly one query.
\<close>

theorem single_probe_reports_store:
  assumes "interactive s" and "timers s = []" and "inflight s = []" and "t \<noteq> []"
  shows "titleExists (fst (page_run (s, st) [EditField EventTitle t, Tick 500, FireTimer, Reply 0 False])) =
           (probe_key t \<in> set (map event_title (events st))) \<and>
         \<not> isCheckingTitle (fst (page_run (s, st) [EditField EventTitle t, Tick 500, FireTimer, Reply 0 False])) \<and>
         queries (fst (page_run (s, st) [EditField EventTitle t, Tick 500, FireTimer, Reply 0 False])) =
           queries s @ [probe_key t]"
  using assms
  by (simp add: page_run_def watch_title_def watch_other_def check_fire_def check_reply_def
                remove_nth_def probe_rows_nonempty Let_def)

theorem single_probe_reports_store_witness:
  "interactive (fst (page_run demo_page demo_ready)) \<and> timers (fst (page_run demo_page demo_ready)) = [] \<and>
   inflight (fst (page_run demo_page demo_ready)) = [] \<and> ''foox'' \<noteq> [] \<and>
   titleExists (fst (page_run (fst (page_run demo_page demo_ready), snd (page_run demo_page demo_ready))
      [EditField EventTitle ''foox'', Tick 500, FireTimer, Reply 0 False]))"
proof -
  have h: "interactive (fst (page_run demo_page demo_ready))" "timers (fst (page_run demo_page demo_ready)) = []"
    "inflight (fst (page_run demo_page demo_ready)) = []" "''foox'' \<noteq> []"
    by (simp_all add: demo_defs js_eval)
  have k: "probe_key ''foox'' \<in> set (map event_title (events (snd (page_run demo_page demo_ready))))"
    by (simp add: demo_defs js_eval)
  show ?thesis using h k single_probe_reports_store [OF h, of "snd (page_run demo_page demo_ready)"] by simp
qed

text \<open>
  C7: a failed check is not taken as "unique": when the reply to an
  outstanding check is an error, the check stays outstanding and the button
  stays disabled.
\<close>

theorem probe_error_keeps_submit_disabled:
  assumes "isCheckingTitle s" and "i < length (inflight s)"
  shows "isCheckingTitle (fst (page_step (s, st) (Reply i True))) \<and>
         \<not> submit_enabled (fst (page_step (s, st) (Reply i True)))"
  using assms by (simp add: check_reply_def submit_enabled_def Let_def)

theorem probe_error_keeps_submit_disabled_witness:
  "isCheckingTitle (fst (page_run demo_page (demo_ready @ [EditField EventTitle ''foo'', Tick 500, FireTimer]))) \<and>
   0 < length (inflight (fst (page_run demo_page (demo_ready @ [EditField EventTitle ''foo'', Tick 500, FireTimer])))) \<and>
   \<not> submit_enabled (fst (page_step (page_run demo_page (demo_ready @ [EditField EventTitle ''foo'', Tick 500, FireTimer]))
                         (Reply 0 True)))"
proof -
  have h: "isCheckingTitle (fst (page_run demo_page (demo_ready @ [EditField EventTitle ''foo'', Tick 500, FireTimer])))"
    "0 < length (inflight (fst (page_run demo_page (demo_ready @ [EditField EventTitle ''foo'', Tick 500, FireTimer]))))"
    by (simp_all add: demo_defs js_eval)
  show ?thesis
    using h probe_error_keeps_submit_disabled [OF h,
        of "snd (page_run demo_page (demo_ready @ [EditField EventTitle ''foo'', Tick 500, FireTimer]))"]
    by simp
qed

text \<open>
  C28: the checker always settles when the store answers: after any run of
  the page from its first render in which no probe fails, letting the
  pending timers fire and the store answer every outstanding probe (only
  environment events: time passing, timers, replies) leaves no check
  outstanding, no timer and no probe in flight.
\<close>

theorem checker_eventually_settles:
  assumes "\<forall>e\<in>set es. \<not> failed_reply e"
  shows "let p = page_run (init_page h m off conn email, st) es;
             q = page_run p (drain (fst p))
         in \<not> isCheckingTitle (fst q) \<and> timers (fst q) = [] \<and> inflight (fst q) = []"
proof -
  have "checker_pending (init_page h m off conn email)" by (simp add: checker_pending_def init_page_def)
  then have "checker_pending (fst (page_run (init_page h m off conn email, st) es))"
    using assms by (rule checker_pending_run)
  then show ?thesis
    using checker_settles [of "fst (page_run (init_page h m off conn email, st) es)"
                              "snd (page_run (init_page h m off conn email, st) es)"]
    by (simp add: Let_def)
qed

theorem checker_eventually_settles_witness:
  "\<not> isCheckingTitle (fst (page_run (page_run demo_page trace_typing)
                                     (drain (fst (page_run demo_page trace_typing)))))"
proof -
  have h: "\<forall>e\<in>set trace_typing. \<not> failed_reply e" by (simp add: demo_defs)
  show ?thesis
    using h checker_eventually_settles [OF h, of 19 5 300 True "''admin@walrus.xyz''" demo_db]
    by (simp add: demo_page_def Let_def)
qed

text \<open>
  C29: a failed probe stalls the checker: once a probe has failed with no
  other timer or probe pending, no event but a new edit of the title (time
  passing, timers, replies, edits of other fields, clicks, store changes)
  ever clears the outstanding check, so the button stays disabled.
\<close>

theorem probe_error_stalls_checker:
  assumes "isCheckingTitle s" and "timers s = []" and "inflight s = []"
    and "\<forall>e\<in>set es. \<not> title_edit e"
  shows "isCheckingTitle (fst (page_run (s, st) es)) \<and> \<not> submit_enabled (fst (page_run (s, st) es))"
  using assms
proof (induction es arbitrary: s st)
  case Nil
  then show ?case by (simp add: page_run_def submit_enabled_def)
next
  case (Cons e es)
  obtain s1 st1 where p: "page_step (s, st) e = (s1, st1)" by (cases "page_step (s, st) e")
  have "isCheckingTitle s1 \<and> timers s1 = [] \<and> inflight s1 = []"
    using stall_step [OF Cons.prems(1-3), of e st] Cons.prems(4) p by simp
  with Cons.IH [of s1 st1] Cons.prems(4) p show ?case by (simp add: page_run_Cons)
qed

theorem probe_error_stalls_checker_witness:
  "isCheckingTitle (fst (page_run demo_page trace_probe_error)) \<and>
   timers (fst (page_run demo_page trace_probe_error)) = [] \<and>
   inflight (fst (page_run demo_page trace_probe_error)) = [] \<and>
   \<not> submit_enabled (fst (page_run (page_run demo_page trace_probe_error)
                         [Tick 1000, FireTimer, EditField EventTimeMin ''10'', Rerender, Click None]))"
proof -
  have h: "isCheckingTitle (fst (page_run demo_page trace_probe_error))"
    "timers (fst (page_run demo_page trace_probe_error)) = []"
    "inflight (fst (page_run demo_page trace_probe_error)) = []"
    by (simp_all add: demo_defs js_eval)
  have e: "\<forall>e\<in>set [Tick 1000, FireTimer, EditField EventTimeMin ''10'', Rerender, Click None]. \<not> title_edit e"
    by simp
  show ?thesis
    using h probe_error_stalls_checker [OF h e, of "snd (page_run demo_page trace_probe_error)"] by simp
qed

lemma submit_date_string_output [simp]: "submit_date_string (schema_output v) = submit_date_string v"
  by (simp add: submit_date_string_def schema_output_def split: option.splits)

lemma handle_submit_store:
  "snd (handle_submit net s st) = st \<or>
   (net = None \<and> \<not> titleExists s \<and> schema_issues (form_values s) = [] \<and>
    (\<exists>t sl a dt r. db_insert_event st t sl a dt = Inr (r, snd (handle_submit net s st))))"
  by (auto simp: handle_submit_def onSubmit_def EventSchema_parse_def Let_def
           split: if_splits sum.splits option.splits prod.splits)

lemma page_step_store:
  "snd (page_step (s, st) e) = st \<or>
   (\<exists>t sl a dt r. db_insert_event st t sl a dt = Inr (r, snd (page_step (s, st) e)))"
  using handle_submit_store [of _ s st]
  by (cases e) (auto simp: Let_def split: prod.splits sum.splits list.splits)

text \<open>
  The store never holds two events with the same title or slug, nor a
  reused id, in any run of the page, whatever other clients insert meanwhile.
\<close>

theorem reachable_store_unique:
  assumes "reachable_page p"
  shows "db_unique (snd p)"
  using assms
proof (induction rule: reachable_page.induct)
  case (init st h m off conn email)
  then show ?case by simp
next
  case (step p e)
  obtain s st where p: "p = (s, st)" by (cases p)
  from page_step_store [of s st e] step.IH p show ?case
    by (auto intro: db_insert_event_unique)
qed

theorem reachable_store_unique_witness:
  "reachable_page (page_run demo_page trace_stale) \<and> db_unique (snd (page_run demo_page trace_stale))"
  using reachable_store_unique [OF reachable_page_run [OF reachable_demo]] reachable_page_run [OF reachable_demo]
  by blast

text \<open>
  C2: the page writes to the store only through a click on an enabled button,
  for a form the schema accepts, whose title is not known to be taken, and
  whose request reached the store.
\<close>

theorem store_written_only_by_valid_click:
  assumes "events (snd (page_step (s, st) e)) \<noteq> events st"
  shows "(\<exists>t sl. e = OtherClient t sl) \<or>
         (e = Click None \<and> interactive s \<and> submit_enabled s \<and> \<not> titleExists s \<and>
          schema_issues (form_values s) = [])"
proof (cases e)
  case (Click net)
  with assms handle_submit_store [of net s st] show ?thesis
    by (auto split: if_splits)
qed (use assms in \<open>auto simp: Let_def split: if_splits prod.splits sum.splits list.splits\<close>)

theorem store_written_only_by_valid_click_witness:
  "events (snd (page_step (fst (page_run demo_page trace_create), snd (page_run demo_page trace_create)) (Click None)))
     \<noteq> events (snd (page_run demo_page trace_create)) \<and>
   submit_enabled (fst (page_run demo_page trace_create))"
proof -
  have h: "events (snd (page_step (fst (page_run demo_page trace_create), snd (page_run demo_page trace_create)) (Click None)))
     \<noteq> events (snd (page_run demo_page trace_create))"
    by (simp add: demo_defs js_eval)
  show ?thesis using h store_written_only_by_valid_click [OF h] by simp
qed

text \<open>
  C31: every row a click writes is well formed: it is one new row at the end
  of the table, with a fresh id, the page's admin id, the composed timestamp,
  a non-empty slug over \<open>[a-z0-9-]\<close>, and a title over the schema's title
  characters with no capital letter and no white space at either end.
\<close>

theorem click_writes_typed_row:
  assumes "events (snd (page_step (s, st) (Click net))) \<noteq> events st"
  shows "\<exists>r. events (snd (page_step (s, st) (Click net))) = events st @ [r] \<and> event_row_typed r \<and>
             ev_id r = next_id st \<and> admin_id r = currentAdminId s \<and>
             event_date r = submit_date_string (form_values s)"
proof -
  have click: "page_step (s, st) (Click net) = handle_submit net s st"
    using assms by (auto split: if_splits)
  then have "snd (handle_submit net s st) \<noteq> st" using assms by auto
  then obtain d r where p: "EventSchema_parse (form_values s) = Inr d"
    and ins: "db_insert_event st (eventTitle d) (eventSlug d) (currentAdminId s) (submit_date_string d) =
                Inr (r, snd (handle_submit net s st))"
    by (blast dest: handle_submit_inserts)
  have v: "schema_issues (form_values s) = []" and d: "d = schema_output (form_values s)"
    using EventSchema_parse_Inr [OF p] by simp_all
  note row = db_insert_event_Inr [OF ins]
  have "event_row_typed r"
    using schema_output_typed [OF v] row by (simp add: event_row_typed_def d)
  with row d click show ?thesis by auto
qed

theorem click_writes_typed_row_witness:
  "events (snd (page_step (fst (page_run demo_page trace_create), snd (page_run demo_page trace_create)) (Click None)))
     \<noteq> events (snd (page_run demo_page trace_create)) \<and>
   (\<exists>r. events (snd (page_step (fst (page_run demo_page trace_create), snd (page_run demo_page trace_create)) (Click None)))
          = events (snd (page_run demo_page trace_create)) @ [r] \<and> event_row_typed r)"
proof -
  have h: "events (snd (page_step (fst (page_run demo_page trace_create), snd (page_run demo_page trace_create)) (Click None)))
     \<noteq> events (snd (page_run demo_page trace_create))"
    by (simp add: demo_defs js_eval)
  show ?thesis using h click_writes_typed_row [OF h] by blast
qed

text \<open>
  The watch callback always returns, although it calls itself: the
  title branch's \<open>form.setValue('eventSlug', ...)\<close> runs the callback once more
  for the slug, which takes the other branch and sets no value, so the
  recursion stops after one nested call; the result is the title handler
  (for the title) or the other-field handler.
\<close>

theorem watch_cb_returns:
  "watch_cb f s = Some (if f = EventTitle then watch_title s else watch_other s)"
proof (cases "f = EventTitle")
  case True
  have slug: "watch_cb EventSlug s' = Some (watch_other s')" for s'
    by (subst watch_cb.simps) (simp add: watch_other_def)
  show ?thesis unfolding True
    by (subst watch_cb.simps) (simp add: slug watch_title_def Let_def)
next
  case False
  then show ?thesis by (subst watch_cb.simps) (simp add: watch_other_def)
qed

text \<open>
  C8: a failed admin lookup leaves the form usable and every event without an
  owner: from any reachable loading state of a connected page, the reply
  shows an empty error line, and from then on the admin id is never set, so
  every row a click writes has no admin id.
\<close>

theorem admin_error_ownerless_event:
  assumes "reachable_page p" and "isLoading (fst p)" and "isConnected (fst p)"
  shows "add_render (fst (page_step p (AdminLoaded (Some e)))) = AddForm (Some []) (\<not> submit_enabled (fst p)) \<and>
         (\<forall>es net. events (snd (page_step (page_run (page_step p (AdminLoaded (Some e))) es) (Click net))) =
                      events (snd (page_run (page_step p (AdminLoaded (Some e))) es)) \<or>
                    (\<exists>r. events (snd (page_step (page_run (page_step p (AdminLoaded (Some e))) es) (Click net))) =
                           events (snd (page_run (page_step p (AdminLoaded (Some e))) es)) @ [r] \<and>
                         admin_id r = None))"
proof -
  obtain s st where p: "p = (s, st)" by (cases p)
  have none: "currentAdminId s = None" "errorMessage s = None"
    using reachable_loading [OF assms(1,2)] p by simp_all
  have s1: "page_step p (AdminLoaded (Some e)) = (s\<lparr>error := Some (err_code e), isLoading := False\<rparr>, st)"
    using assms(2) p by (simp add: admin_loaded_def)
  have r: "add_render (fst (page_step p (AdminLoaded (Some e)))) = AddForm (Some []) (\<not> submit_enabled (fst p))"
    using s1 none assms(3) p by (simp add: add_render_def submit_enabled_def)
  have "currentAdminId (fst (page_run (page_step p (AdminLoaded (Some e))) es)) = None" for es
    using admin_id_persists [of "page_step p (AdminLoaded (Some e))" es] s1 none by simp
  then show ?thesis
    using r click_row_admin by (metis prod.collapse)
qed

theorem admin_error_ownerless_event_witness:
  "reachable_page demo_page \<and> isLoading (fst demo_page) \<and> isConnected (fst demo_page) \<and>
   add_render (fst (page_step demo_page (AdminLoaded (Some (PgError ''PGRST301'' ''JWT expired''))))) =
     AddForm (Some []) True"
proof -
  have h: "isLoading (fst demo_page)" "isConnected (fst demo_page)" by (simp_all add: demo_defs js_eval)
  have d: "\<not> submit_enabled (fst demo_page)" by (simp add: demo_defs js_eval)
  show ?thesis
    using reachable_demo h d admin_error_ownerless_event [OF reachable_demo h, of "PgError ''PGRST301'' ''JWT expired''"]
    by simp
qed

end
