(* ===== verification/Submit.thy ===== *)
theory Submit
  imports AddEvent
begin

text \<open>
  The add-event page with its requests in flight: \<open>onSubmit\<close> split at the
  \<open>await\<close> of its insert (lines 311-385) and \<open>fetchCurrentAdmin\<close> split at
  the \<open>await\<close> of its query (lines 151-175), rerun by the effect whenever
  the wallet's email changes (line 175). Between a request and its reply
  the page keeps running: timers fire, probes are answered, other clients
  write to the store, the wallet may change, and the insert runs against the
  store as it is when the request arrives. \<open>add_sys\<close> holds the page, the
  store, the inserts and the admin queries in flight; \<open>add_sys_step\<close>
  applies a page event of \<open>AddEvent\<close>, a click, a change of the wallet's
  email or a reply, in any order. After \<open>router.push\<close> the page is gone
  (\<open>navigated\<close>) and React drops its state updates; the model keeps
  applying them to a page nobody sees, and no claim reads them.

  Proved here: the atomic page of \<open>AddEvent\<close> is the special case in which
  each reply arrives right after its request; while the wallet stays the
  same, at most one insert is in flight and the page shows its loading
  screen meanwhile; every insert reply ends the loading, on the home page
  or with an error on the form. Shown wrong, in every reachable state
  where it applies: an admin query's reply during a submission puts the
  form back on screen, usable, with the insert still in flight (so a second
  click sends a second insert), and a reply for an email the wallet no
  longer has sets that email's admin id, which the next insert carries.
\<close>

subsection \<open>The submission split at its await\<close>

text \<open>What the insert request carries (lines 349-358): the closure's form data and admin id.\<close>

record insert_req =
  req_title :: string
  req_slug :: string
  req_admin :: "int option"
  req_date :: string

text \<open>\<open>onSubmit\<close> up to its \<open>await\<close> (lines 311-358).\<close>

definition submit_start :: "form_data \<Rightarrow> add_state \<Rightarrow> add_state \<times> insert_req option" where
  "submit_start d s =
     (if titleExists s
      then (s\<lparr>error := Some ''Duplicate title'', errorMessage := Some msg_title_taken\<rparr>, None)
      else (s\<lparr>isLoading := True, error := None, errorMessage := None, titleExists := False\<rparr>,
            Some \<lparr>req_title = eventTitle d, req_slug = eventSlug d, req_admin = currentAdminId s,
                  req_date = submit_date_string d\<rparr>))"

text \<open>\<open>onSubmit\<close> after its \<open>await\<close> (lines 360-384); the store runs the insert when the request arrives.\<close>

definition submit_resume :: "pg_error option \<Rightarrow> insert_req \<Rightarrow> add_state \<Rightarrow> db \<Rightarrow> add_state \<times> db" where
  "submit_resume net r s st =
     (let s1 = s\<lparr>isLoading := False\<rparr>;
          res = (case net of
                   Some e \<Rightarrow> Inl e
                 | None \<Rightarrow> db_insert_event st (req_title r) (req_slug r) (req_admin r) (req_date r))
      in case res of
           Inl e \<Rightarrow> (insert_failed e s1, st)
         | Inr (row, st') \<Rightarrow> (s1\<lparr>navigated := True\<rparr>, st'))"

text \<open>
  \<open>form.handleSubmit(onSubmit)\<close> (line 425): the resolver, then \<open>onSubmit\<close>
  with the errors cleared; \<open>isSubmitted\<close> is set once \<open>onSubmit\<close> has
  returned, at once when it returns before its \<open>await\<close>.
\<close>

definition handle_submit_start :: "add_state \<Rightarrow> add_state \<times> insert_req option" where
  "handle_submit_start s =
     (case EventSchema_parse (form_values s) of
        Inl iss \<Rightarrow> (s\<lparr>is_submitted := True, form_errors := iss\<rparr>, None)
      | Inr d \<Rightarrow> (case submit_start d (s\<lparr>form_errors := []\<rparr>) of
                    (s', None) \<Rightarrow> (s'\<lparr>is_submitted := True\<rparr>, None)
                  | (s', Some r) \<Rightarrow> (s', Some r)))"

definition handle_submit_resume :: "pg_error option \<Rightarrow> insert_req \<Rightarrow> add_state \<Rightarrow> db \<Rightarrow> add_state \<times> db" where
  "handle_submit_resume net r s st =
     (case submit_resume net r s st of (s', st') \<Rightarrow> (s'\<lparr>is_submitted := True\<rparr>, st'))"

subsection \<open>The page with its requests in flight\<close>

record add_sys =
  add_page :: add_state
  add_store :: db
  inserts :: "insert_req list"
  admin_lookups :: "string list"

datatype sys_event =
    PageEvent page_event
  | SubmitClick
  | InsertDone nat "pg_error option"
  | AdminDone nat "pg_error option"
  | WalletEmail string

text \<open>The page's own events; \<open>Click\<close> and \<open>AdminLoaded\<close> are the atomic forms of the split ones.\<close>

fun split_event :: "page_event \<Rightarrow> bool" where
  "split_event (Click net) = True"
| "split_event (AdminLoaded net) = True"
| "split_event e = False"

text \<open>
  A click runs \<open>handleSubmit\<close> up to the insert's \<open>await\<close>; \<open>InsertDone i\<close>
  is the reply to the \<open>i\<close>-th insert in flight, \<open>AdminDone i\<close> the reply to
  the \<open>i\<close>-th admin query, asked for the email it was issued with; a new
  email re-renders the page and reruns the effect (\<open>setIsLoading(true)\<close>
  and a new query).
\<close>

fun add_sys_step :: "add_sys \<Rightarrow> sys_event \<Rightarrow> add_sys" where
  "add_sys_step q (PageEvent e) =
     (if split_event e then q
      else (case page_step (add_page q, add_store q) e of (s, st) \<Rightarrow> q\<lparr>add_page := s, add_store := st\<rparr>))"
| "add_sys_step q SubmitClick =
     (if interactive (add_page q) \<and> submit_enabled (add_page q)
      then (case handle_submit_start (add_page q) of
              (s, None) \<Rightarrow> q\<lparr>add_page := s\<rparr>
            | (s, Some r) \<Rightarrow> q\<lparr>add_page := s, inserts := inserts q @ [r]\<rparr>)
      else q)"
| "add_sys_step q (InsertDone i net) =
     (if i < length (inserts q)
      then (case handle_submit_resume net (inserts q ! i) (add_page q) (add_store q) of
              (s, st) \<Rightarrow> q\<lparr>add_page := s, add_store := st, inserts := remove_nth i (inserts q)\<rparr>)
      else q)"
| "add_sys_step q (AdminDone i net) =
     (if i < length (admin_lookups q)
      then q\<lparr>add_page := admin_loaded (case net of Some e \<Rightarrow> Inl e
                                      | None \<Rightarrow> Inr (admin_ids (add_store q) (admin_lookups q ! i))) (add_page q),
             admin_lookups := remove_nth i (admin_lookups q)\<rparr>
      else q)"
| "add_sys_step q (WalletEmail em) =
     (if em = emailAddress (add_page q) then q
      else q\<lparr>add_page := (add_page q)\<lparr>emailAddress := em, isLoading := True\<rparr>,
             admin_lookups := admin_lookups q @ [em]\<rparr>)"

definition add_sys_run :: "add_sys \<Rightarrow> sys_event list \<Rightarrow> add_sys" where
  "add_sys_run q es = foldl add_sys_step q es"

text \<open>The page as mounted: the admin query is in flight, no insert is.\<close>

definition add_sys_init :: "nat \<Rightarrow> nat \<Rightarrow> int \<Rightarrow> bool \<Rightarrow> string \<Rightarrow> db \<Rightarrow> add_sys" where
  "add_sys_init h m off conn email st =
     \<lparr>add_page = init_page h m off conn email, add_store = st, inserts = [], admin_lookups = [email]\<rparr>"

inductive add_sys_reachable :: "add_sys \<Rightarrow> bool" where
  init: "db_unique st \<Longrightarrow> add_sys_reachable (add_sys_init h m off conn email st)"
| step: "add_sys_reachable q \<Longrightarrow> add_sys_reachable (add_sys_step q e)"

text \<open>The atomic page's events as the split page sees them: each reply right after its request.\<close>

fun split_events :: "page_event list \<Rightarrow> sys_event list" where
  "split_events [] = []"
| "split_events (Click net # es) = SubmitClick # InsertDone 0 net # split_events es"
| "split_events (AdminLoaded net # es) = AdminDone 0 net # split_events es"
| "split_events (e # es) = PageEvent e # split_events es"

text \<open>Runs in which the wallet's email never changes.\<close>

fun wallet_fixed :: "sys_event list \<Rightarrow> bool" where
  "wallet_fixed [] = True"
| "wallet_fixed (WalletEmail em # es) = False"
| "wallet_fixed (e # es) = wallet_fixed es"

subsection \<open>Invariants\<close>

text \<open>The split page runs the atomic page's events in lock step while nothing is in flight but the first query.\<close>

definition sys_atomic :: "add_sys \<Rightarrow> bool" where
  "sys_atomic q \<longleftrightarrow>
     inserts q = [] \<and> admin_lookups q = (if isLoading (add_page q) then [emailAddress (add_page q)] else [])"

text \<open>In every run: an insert in flight was sent by a connected page; the store stays unique.\<close>

definition sys_inv :: "add_sys \<Rightarrow> bool" where
  "sys_inv q \<longleftrightarrow> (inserts q = [] \<or> isConnected (add_page q)) \<and> db_unique (add_store q)"

text \<open>
  While the wallet stays the same: at most one insert and at most one admin
  query are in flight, never both, and either keeps the loading screen up;
  an insert in flight was sent from a page still on screen.
\<close>

definition one_request :: "add_sys \<Rightarrow> bool" where
  "one_request q \<longleftrightarrow>
     length (inserts q) + length (admin_lookups q) \<le> 1 \<and>
     (inserts q = [] \<or> \<not> navigated (add_page q)) \<and>
     (inserts q = [] \<and> admin_lookups q = [] \<or> isLoading (add_page q))"

subsection \<open>Example runs\<close>

text \<open>
  The example store and admin of \<open>AddEvent\<close>, with a second admin, Bob, of
  id 2. The admin query is answered, a date picked, the free title "party"
  typed and checked, and Create Event clicked.
\<close>

definition wallet_db :: db where
  "wallet_db = demo_db\<lparr>admins := admins demo_db @ [(''bob@walrus.xyz'', 2)]\<rparr>"

definition demo_sys :: add_sys where
  "demo_sys = add_sys_init 19 5 300 True ''admin@walrus.xyz'' wallet_db"

definition race_click :: "sys_event list" where
  "race_click =
     [AdminDone 0 None, PageEvent (PickDate (Some \<lparr>year = 2024, month = 3, day = 8\<rparr>)), PageEvent Rerender,
      PageEvent (EditField EventTitle ''party''), PageEvent (Tick 500), PageEvent FireTimer,
      PageEvent (Reply 0 False), SubmitClick]"

text \<open>Before the insert arrives, another client stores an event titled "party".\<close>

definition race_other :: "sys_event list" where
  "race_other = race_click @ [PageEvent (OtherClient ''party'' ''party-night'')]"

text \<open>During the insert the wallet switches to Bob; his admin query is answered; Create Event is clicked again.\<close>

definition race_wallet :: "sys_event list" where
  "race_wallet = race_click @ [WalletEmail ''bob@walrus.xyz'', AdminDone 0 None, SubmitClick]"

declare submit_start_def [js_eval] submit_resume_def [js_eval] handle_submit_start_def [js_eval]
  handle_submit_resume_def [js_eval] add_sys_run_def [js_eval] add_sys_init_def [js_eval]
  wallet_db_def [js_eval] demo_sys_def [js_eval]

subsection \<open>Handlers\<close>

lemma insert_failed_form_errors:
  "insert_failed e (s\<lparr>form_errors := x, error := a, errorMessage := b, titleExists := c, isLoading := d\<rparr>) =
   (insert_failed e (s\<lparr>error := a, errorMessage := b, titleExists := c, isLoading := d\<rparr>))\<lparr>form_errors := x\<rparr>"
  by (simp add: insert_failed_def Let_def)

lemma handle_submit_split:
  "(case handle_submit_start s of (s', None) \<Rightarrow> (s', st) | (s', Some r) \<Rightarrow> handle_submit_resume net r s' st) =
   handle_submit net s st"
  by (simp add: handle_submit_start_def handle_submit_resume_def submit_start_def submit_resume_def
                handle_submit_def onSubmit_def Let_def insert_failed_form_errors
           split: sum.split option.split prod.split)

lemma insert_failed_fields:
  "error (insert_failed e s) = Some (err_code e)"
  "isLoading (insert_failed e s) = isLoading s"
  "isConnected (insert_failed e s) = isConnected s"
  "navigated (insert_failed e s) = navigated s"
  "emailAddress (insert_failed e s) = emailAddress s"
  by (simp_all add: insert_failed_def Let_def)

lemma page_step_unsplit_frame:
  assumes "\<not> split_event e"
  shows "isLoading (fst (page_step (s, st) e)) = isLoading s \<and>
         isConnected (fst (page_step (s, st) e)) = isConnected s \<and>
         navigated (fst (page_step (s, st) e)) = navigated s \<and>
         emailAddress (fst (page_step (s, st) e)) = emailAddress s"
  using assms
  by (cases e) (auto simp: watch_title_def watch_other_def check_fire_def check_reply_def Let_def
                     split: list.splits prod.splits probe_reply.splits sum.splits)

lemma handle_submit_start_frame:
  "isConnected (fst (handle_submit_start s)) = isConnected s"
  "navigated (fst (handle_submit_start s)) = navigated s"
  "emailAddress (fst (handle_submit_start s)) = emailAddress s"
  "handle_submit_start s = (s', None) \<Longrightarrow> isLoading s' = isLoading s"
  "handle_submit_start s = (s', Some r) \<Longrightarrow> isLoading s'"
  by (auto simp: handle_submit_start_def submit_start_def split: sum.splits option.splits prod.splits if_splits)

lemma handle_submit_resume_frame:
  "\<not> isLoading (fst (handle_submit_resume net r s st))"
  "isConnected (fst (handle_submit_resume net r s st)) = isConnected s"
  by (auto simp: handle_submit_resume_def submit_resume_def Let_def insert_failed_fields
           split: sum.splits option.splits prod.splits)

lemma handle_submit_resume_store:
  "snd (handle_submit_resume net r s st) = st \<or>
   (\<exists>row. db_insert_event st (req_title r) (req_slug r) (req_admin r) (req_date r) =
            Inr (row, snd (handle_submit_resume net r s st)))"
  by (auto simp: handle_submit_resume_def submit_resume_def Let_def split: option.splits sum.splits prod.splits)

lemma db_unique_handle_submit_resume:
  "db_unique st \<Longrightarrow> handle_submit_resume net r s st = (s', st') \<Longrightarrow> db_unique st'"
  using handle_submit_resume_store [of net r s st] db_insert_event_unique by (metis snd_conv)

lemma db_unique_page_step:
  "db_unique st \<Longrightarrow> db_unique (snd (page_step (s, st) e))"
  using page_step_store [of s st e] db_insert_event_unique by metis

lemma admin_loaded_fields:
  "\<not> isLoading (admin_loaded r s)"
  "isConnected (admin_loaded r s) = isConnected s"
  "navigated (admin_loaded r s) = navigated s"
  "emailAddress (admin_loaded r s) = emailAddress s"
  by (simp_all add: admin_loaded_def split: sum.splits)

lemma add_sys_run_append: "add_sys_run q (xs @ ys) = add_sys_run (add_sys_run q xs) ys"
  by (simp add: add_sys_run_def)

lemma add_sys_run_Cons: "add_sys_run q (e # es) = add_sys_run (add_sys_step q e) es"
  by (simp add: add_sys_run_def)

subsection \<open>The split submission against the atomic one\<close>

lemma sys_atomic_step:
  assumes "sys_atomic q"
  shows "sys_atomic (add_sys_run q (split_events [e])) \<and>
         (add_page (add_sys_run q (split_events [e])), add_store (add_sys_run q (split_events [e]))) =
           page_step (add_page q, add_store q) e"
proof (cases "split_event e")
  case False
  then have "split_events [e] = [PageEvent e]" by (cases e) simp_all
  with False assms page_step_unsplit_frame [OF False, of "add_page q" "add_store q"] show ?thesis
    by (auto simp: add_sys_run_def sys_atomic_def split: prod.splits)
next
  case True
  then consider net where "e = Click net" | net where "e = AdminLoaded net" by (cases e) auto
  then show ?thesis
  proof cases
    case 1
    show ?thesis
    proof (cases "interactive (add_page q) \<and> submit_enabled (add_page q)")
      case True
      then have ld: "\<not> isLoading (add_page q)" and nil: "inserts q = []" "admin_lookups q = []"
        using assms by (simp_all add: interactive_def sys_atomic_def)
      obtain s' r where hs: "handle_submit_start (add_page q) = (s', r)" by fastforce
      have split: "(case r of None \<Rightarrow> (s', add_store q) | Some r' \<Rightarrow> handle_submit_resume net r' s' (add_store q)) =
                   handle_submit net (add_page q) (add_store q)"
        using handle_submit_split [where s = "add_page q" and st = "add_store q" and net = net] hs by simp
      show ?thesis
      proof (cases r)
        case None
        with hs have "isLoading s' = isLoading (add_page q)" using handle_submit_start_frame(4) by simp
        with None 1 True hs split ld nil show ?thesis
          by (simp add: add_sys_run_def sys_atomic_def)
      next
        case (Some r')
        with 1 True hs split ld nil handle_submit_resume_frame(1) [where net = net and r = r' and s = s' and st = "add_store q"]
        show ?thesis
          by (auto simp: add_sys_run_def sys_atomic_def remove_nth_def split: prod.splits)
      qed
    next
      case False
      with 1 assms show ?thesis by (auto simp: add_sys_run_def sys_atomic_def)
    qed
  next
    case 2
    then show ?thesis using assms
      by (auto simp: add_sys_run_def sys_atomic_def admin_loaded_fields admin_loaded_def remove_nth_def
               split: option.splits)
  qed
qed

lemma split_events_Cons: "split_events (e # es) = split_events [e] @ split_events es"
  by (cases e) simp_all

lemma split_run_atomic:
  "sys_atomic q \<Longrightarrow>
     sys_atomic (add_sys_run q (split_events es)) \<and>
     (add_page (add_sys_run q (split_events es)), add_store (add_sys_run q (split_events es))) =
       page_run (add_page q, add_store q) es"
proof (induction es arbitrary: q)
  case Nil
  then show ?case by (simp add: add_sys_run_def page_run_def)
next
  case (Cons e es)
  note one = sys_atomic_step [OF Cons.prems, of e]
  from Cons.IH [OF conjunct1 [OF one]] conjunct2 [OF one] show ?case
    by (simp only: split_events_Cons [of e es] add_sys_run_append page_run_Cons)
qed

lemma sys_atomic_init: "sys_atomic (add_sys_init h m off conn email st)"
  by (simp add: sys_atomic_def add_sys_init_def init_page_def)

subsection \<open>Invariants\<close>

lemma sys_inv_step:
  assumes "sys_inv q"
  shows "sys_inv (add_sys_step q e)"
proof (cases e)
  case (PageEvent e')
  show ?thesis
  proof (cases "split_event e'")
    case False
    with PageEvent assms page_step_unsplit_frame [OF False, of "add_page q" "add_store q"]
      db_unique_page_step [of "add_store q" "add_page q" e'] show ?thesis
      by (auto simp: sys_inv_def split: prod.splits)
  qed (use PageEvent assms in simp)
next
  case SubmitClick
  with assms handle_submit_start_frame(1) [where s = "add_page q"] show ?thesis
    by (auto simp: sys_inv_def interactive_def split: prod.splits option.splits)
next
  case (InsertDone i net)
  with assms db_unique_handle_submit_resume [of "add_store q" net "inserts q ! i" "add_page q"]
    handle_submit_resume_frame(2) [of net "inserts q ! i" "add_page q" "add_store q"] show ?thesis
    by (auto simp: sys_inv_def split: prod.splits)
next
  case (AdminDone i net)
  with assms show ?thesis
    by (simp add: sys_inv_def admin_loaded_fields)
next
  case (WalletEmail em)
  with assms show ?thesis
    by (simp add: sys_inv_def)
qed

lemma reachable_sys_inv: "add_sys_reachable q \<Longrightarrow> sys_inv q"
proof (induction rule: add_sys_reachable.induct)
  case (init st h m off conn email)
  then show ?case by (simp add: sys_inv_def add_sys_init_def)
next
  case (step q e)
  then show ?case by (simp add: sys_inv_step)
qed

lemma add_sys_reachable_run: "add_sys_reachable q \<Longrightarrow> add_sys_reachable (add_sys_run q es)"
proof (induction es arbitrary: q)
  case Nil
  then show ?case by (simp add: add_sys_run_def)
next
  case (Cons e es)
  from Cons.prems have "add_sys_reachable (add_sys_step q e)" by (rule add_sys_reachable.step)
  then show ?case by (simp add: add_sys_run_Cons Cons.IH)
qed

lemma add_sys_step_page:
  "\<not> split_event e \<Longrightarrow>
     add_sys_step q (PageEvent e) =
       q\<lparr>add_page := fst (page_step (add_page q, add_store q) e),
         add_store := snd (page_step (add_page q, add_store q) e)\<rparr>"
  by (simp split: prod.split)

lemma one_request_step:
  assumes inv: "one_request q" and e: "\<not> (\<exists>em. e = WalletEmail em)"
  shows "one_request (add_sys_step q e)"
proof (cases e)
  case (PageEvent e')
  show ?thesis
  proof (cases "split_event e'")
    case False
    then have "add_sys_step q e =
        q\<lparr>add_page := fst (page_step (add_page q, add_store q) e'),
          add_store := snd (page_step (add_page q, add_store q) e')\<rparr>"
      using PageEvent by (simp add: case_prod_beta)
    with inv page_step_unsplit_frame [OF False, of "add_page q" "add_store q"] show ?thesis
      by (simp add: one_request_def)
  qed (use PageEvent inv in simp)
next
  case SubmitClick
  show ?thesis
  proof (cases "interactive (add_page q) \<and> submit_enabled (add_page q)")
    case True
    then have nil: "inserts q = []" "admin_lookups q = []" and nav: "\<not> navigated (add_page q)"
      using inv by (auto simp: one_request_def interactive_def)
    obtain s' r where hs: "handle_submit_start (add_page q) = (s', r)" by fastforce
    show ?thesis
    proof (cases r)
      case None
      with SubmitClick True hs nil show ?thesis by (simp add: one_request_def)
    next
      case (Some r')
      with hs have "isLoading s'" "navigated s' = navigated (add_page q)"
        using handle_submit_start_frame(2,5) [where s = "add_page q"] by auto
      with Some SubmitClick True hs nil nav show ?thesis by (simp add: one_request_def)
    qed
  qed (use SubmitClick inv in auto)
next
  case (InsertDone i net)
  show ?thesis
  proof (cases "i < length (inserts q)")
    case True
    moreover have "length (inserts q) + length (admin_lookups q) \<le> 1"
      using inv by (simp add: one_request_def)
    ultimately have "length (admin_lookups q) = 0" "length (inserts q) = 1" by linarith+
    with True have "admin_lookups q = []" "remove_nth i (inserts q) = []" by (simp_all add: remove_nth_def)
    with InsertDone True show ?thesis by (simp add: one_request_def split: prod.split)
  qed (use InsertDone inv in simp)
next
  case (AdminDone i net)
  show ?thesis
  proof (cases "i < length (admin_lookups q)")
    case True
    moreover have "length (inserts q) + length (admin_lookups q) \<le> 1"
      using inv by (simp add: one_request_def)
    ultimately have "length (inserts q) = 0" "length (admin_lookups q) = 1" by linarith+
    with True have "inserts q = []" "remove_nth i (admin_lookups q) = []" by (simp_all add: remove_nth_def)
    with AdminDone True show ?thesis by (simp add: one_request_def)
  qed (use AdminDone inv in simp)
next
  case (WalletEmail em)
  with e show ?thesis by simp
qed

lemma one_request_run:
  "one_request q \<Longrightarrow> wallet_fixed es \<Longrightarrow> one_request (add_sys_run q es)"
proof (induction es arbitrary: q)
  case Nil
  then show ?case by (simp add: add_sys_run_def)
next
  case (Cons e es)
  then have "\<not> (\<exists>em. e = WalletEmail em)" and "wallet_fixed es" by (cases e; simp)+
  with Cons show ?case by (simp add: add_sys_run_Cons one_request_step)
qed


lemma submit_click_inserts:
  "inserts (add_sys_step q SubmitClick) = inserts q \<or>
   (\<exists>r. inserts (add_sys_step q SubmitClick) = inserts q @ [r] \<and> req_admin r = currentAdminId (add_page q))"
  by (auto simp: handle_submit_start_def submit_start_def split: prod.splits option.splits sum.splits if_splits)

lemma one_request_init: "one_request (add_sys_init h m off conn email st)"
  by (simp add: one_request_def add_sys_init_def init_page_def)

lemma reachable_demo_sys: "add_sys_reachable demo_sys"
  unfolding demo_sys_def by (rule add_sys_reachable.init) (simp add: wallet_db_def demo_db_def db_unique_def)

subsection \<open>Properties of the split submission\<close>

text \<open>
  The atomic page of \<open>AddEvent\<close> is the split page in which every reply
  arrives right after its request: for every list of page events, running
  them on the mounted split page, each click followed at once by its
  insert's reply and the admin reply in place of \<open>AdminLoaded\<close>, gives the
  page and the store the atomic page gives.
\<close>

theorem atomic_page_is_split_page:
  "(add_page (add_sys_run (add_sys_init h m off conn email st) (split_events es)),
    add_store (add_sys_run (add_sys_init h m off conn email st) (split_events es))) =
   page_run (init_page h m off conn email, st) es"
  using split_run_atomic [OF sys_atomic_init] by (simp add: add_sys_init_def)

text \<open>
  C12: in every run in which the wallet's email stays the same, an insert in
  flight is the only one: the page shows its loading screen, and neither a
  click nor an edit of a field changes anything until the reply.
\<close>

theorem single_insert_in_flight:
  assumes "wallet_fixed es" and "q = add_sys_run (add_sys_init h m off conn email st) es"
    and "inserts q \<noteq> []"
  shows "length (inserts q) = 1 \<and> add_render (add_page q) = AddLoading \<and>
         add_sys_step q SubmitClick = q \<and> add_sys_step q (PageEvent (EditField f x)) = q"
proof -
  have inv: "one_request q" unfolding assms(2) by (rule one_request_run [OF one_request_init assms(1)])
  have le: "length (inserts q) + length (admin_lookups q) \<le> 1" and ld: "isLoading (add_page q)"
    using inv assms(3) by (simp_all add: one_request_def)
  have "0 < length (inserts q)" using assms(3) by simp
  with le have "length (inserts q) = 1" by linarith
  with ld show ?thesis by (simp add: add_render_def interactive_def)
qed

theorem single_insert_in_flight_witness:
  "wallet_fixed race_click \<and>
   inserts (add_sys_run demo_sys race_click) =
     [\<lparr>req_title = ''party'', req_slug = ''party'', req_admin = Some 1,
       req_date = ''Fri Mar 8 2024 19:05:00 -05:00''\<rparr>] \<and>
   add_render (add_page (add_sys_run demo_sys race_click)) = AddLoading"
proof -
  have w: "wallet_fixed race_click" by (simp add: race_click_def)
  have i: "inserts (add_sys_run demo_sys race_click) =
     [\<lparr>req_title = ''party'', req_slug = ''party'', req_admin = Some 1,
       req_date = ''Fri Mar 8 2024 19:05:00 -05:00''\<rparr>]"
    by (simp add: race_click_def demo_defs js_eval)
  then have ne: "inserts (add_sys_run demo_sys race_click) \<noteq> []" by simp
  note c = single_insert_in_flight [OF w arg_cong [where f = "\<lambda>q0. add_sys_run q0 race_click", OF demo_sys_def] ne]
  show ?thesis by (intro conjI w i conjunct1 [OF conjunct2 [OF c]])
qed

text \<open>
  C16: every insert reply ends the loading and retires its request; on
  success the page navigates and the store has exactly the requested row
  appended, with the next id; otherwise the store is unchanged and the form
  is back with its error line.
\<close>

theorem insert_reply_ends_loading:
  assumes "add_sys_reachable q" and "i < length (inserts q)" and "\<not> navigated (add_page q)"
  shows "let q' = add_sys_step q (InsertDone i net); r = inserts q ! i in
         inserts q' = remove_nth i (inserts q) \<and> \<not> isLoading (add_page q') \<and>
         (if navigated (add_page q')
          then net = None \<and>
               events (add_store q') = events (add_store q) @
                 [\<lparr>ev_id = next_id (add_store q), event_title = req_title r, event_slug = req_slug r,
                   admin_id = req_admin r, event_date = req_date r\<rparr>]
          else add_store q' = add_store q \<and> error (add_page q') \<noteq> None \<and>
               add_render (add_page q') =
                 AddForm (Some (case errorMessage (add_page q') of None \<Rightarrow> [] | Some m \<Rightarrow> m))
                         (\<not> submit_enabled (add_page q')))"
proof -
  define r where "r = inserts q ! i"
  have conn: "isConnected (add_page q)"
    using reachable_sys_inv [OF assms(1)] assms(2) by (auto simp: sys_inv_def)
  show ?thesis
  proof (cases "net = None \<and> \<not> isl (db_insert_event (add_store q) (req_title r) (req_slug r) (req_admin r) (req_date r))")
    case True
    then obtain row st' where net: "net = None" and
      ins: "db_insert_event (add_store q) (req_title r) (req_slug r) (req_admin r) (req_date r) = Inr (row, st')"
      by (cases "db_insert_event (add_store q) (req_title r) (req_slug r) (req_admin r) (req_date r)") auto
    from db_insert_event_Inr [OF ins] net ins conn assms(2,3) show ?thesis
      by (simp add: r_def [symmetric] handle_submit_resume_def submit_resume_def)
  next
    case False
    then obtain e where res: "(case net of Some e \<Rightarrow> Inl e
        | None \<Rightarrow> db_insert_event (add_store q) (req_title r) (req_slug r) (req_admin r) (req_date r)) = Inl e"
      by (cases net) (auto simp: isl_def split: sum.splits)
    from res conn assms(2,3) show ?thesis
      by (simp add: r_def [symmetric] handle_submit_resume_def submit_resume_def add_render_def insert_failed_fields)
  qed
qed

text \<open>
  The race: "party" was checked free and clicked; another client stores
  "party" before the insert arrives. The reply is the title conflict: the
  page is back on the form with the title-taken message and the button
  enabled, and the store keeps the other client's event only.
\<close>

theorem insert_reply_ends_loading_witness:
  "inserts (add_sys_run demo_sys race_other) =
     [\<lparr>req_title = ''party'', req_slug = ''party'', req_admin = Some 1,
       req_date = ''Fri Mar 8 2024 19:05:00 -05:00''\<rparr>] \<and>
   navigated (add_page (add_sys_run demo_sys race_other)) = False \<and>
   navigated (add_page (add_sys_step (add_sys_run demo_sys race_other) (InsertDone 0 None))) = False \<and>
   add_render (add_page (add_sys_step (add_sys_run demo_sys race_other) (InsertDone 0 None))) =
     AddForm (Some msg_title_taken) False \<and>
   map event_slug (events (add_store (add_sys_step (add_sys_run demo_sys race_other) (InsertDone 0 None)))) =
     [''foox'', ''party-night'']"
  using insert_reply_ends_loading [OF add_sys_reachable_run [OF reachable_demo_sys, where es = race_other],
      where i = 0 and net = None]
  by (simp add: race_other_def race_click_def demo_defs js_eval)

text \<open>
  C18: the admin query and the submission share \<open>isLoading\<close>: in every
  reachable state with an insert in flight, the reply to an admin query
  (one the wallet change reran) puts the form back on screen, usable, while
  the insert is still in flight; the witness then sends a second insert of
  the same event.
\<close>

theorem admin_reply_reopens_form:
  assumes "add_sys_reachable q" and "inserts q \<noteq> []" and "i < length (admin_lookups q)"
    and "\<not> navigated (add_page q)"
  shows "inserts (add_sys_step q (AdminDone i net)) = inserts q \<and>
         interactive (add_page (add_sys_step q (AdminDone i net)))"
proof -
  have "isConnected (add_page q)" using reachable_sys_inv [OF assms(1)] assms(2) by (simp add: sys_inv_def)
  with assms(3,4) show ?thesis by (simp add: interactive_def admin_loaded_fields)
qed

theorem admin_reply_reopens_form_witness:
  "inserts (add_sys_run demo_sys (race_click @ [WalletEmail ''bob@walrus.xyz''])) \<noteq> [] \<and>
   admin_lookups (add_sys_run demo_sys (race_click @ [WalletEmail ''bob@walrus.xyz''])) = [''bob@walrus.xyz''] \<and>
   interactive (add_page (add_sys_step (add_sys_run demo_sys (race_click @ [WalletEmail ''bob@walrus.xyz'']))
     (AdminDone 0 None))) \<and>
   map req_admin (inserts (add_sys_run demo_sys race_wallet)) = [Some 1, Some 2]"
proof -
  let ?q = "add_sys_run demo_sys (race_click @ [WalletEmail ''bob@walrus.xyz''])"
  have r: "add_sys_reachable ?q" by (rule add_sys_reachable_run [OF reachable_demo_sys])
  have h: "inserts ?q \<noteq> []" "0 < length (admin_lookups ?q)" "\<not> navigated (add_page ?q)"
    by (simp_all add: race_click_def demo_defs js_eval)
  have l: "admin_lookups ?q = [''bob@walrus.xyz'']" by (simp add: race_click_def demo_defs js_eval)
  have w: "map req_admin (inserts (add_sys_run demo_sys race_wallet)) = [Some 1, Some 2]"
    by (simp add: race_wallet_def race_click_def demo_defs js_eval)
  show ?thesis using h l w conjunct2 [OF admin_reply_reopens_form [OF r h(1,2,3), of None]] by simp
qed

text \<open>
  C25: the admin query has no supersession check: a reply for an email that
  is no longer the wallet's sets that email's admin id on the page, and the
  insert a click then sends carries it.
\<close>

theorem stale_admin_reply_applied:
  assumes "i < length (admin_lookups q)" and "admin_lookups q ! i \<noteq> emailAddress (add_page q)"
    and "admin_ids (add_store q) (admin_lookups q ! i) = a # as"
  shows "let q' = add_sys_step q (AdminDone i None) in
         currentAdminId (add_page q') = Some a \<and> emailAddress (add_page q') = emailAddress (add_page q) \<and>
         (inserts (add_sys_step q' SubmitClick) = inserts q' \<or>
          (\<exists>r. inserts (add_sys_step q' SubmitClick) = inserts q' @ [r] \<and> req_admin r = Some a))"
proof -
  define q' where "q' = add_sys_step q (AdminDone i None)"
  have c: "currentAdminId (add_page q') = Some a" "emailAddress (add_page q') = emailAddress (add_page q)"
    using assms by (simp_all add: q'_def admin_loaded_def)
  from submit_click_inserts [of q'] have d: "inserts (add_sys_step q' SubmitClick) = inserts q' \<or>
      (\<exists>r. inserts (add_sys_step q' SubmitClick) = inserts q' @ [r] \<and> req_admin r = Some a)"
    unfolding c(1) .
  show ?thesis unfolding Let_def q'_def [symmetric] using c d by blast
qed

theorem stale_admin_reply_applied_witness:
  "admin_lookups (add_sys_run demo_sys [WalletEmail ''bob@walrus.xyz'', AdminDone 1 None]) = [''admin@walrus.xyz''] \<and>
   emailAddress (add_page (add_sys_run demo_sys [WalletEmail ''bob@walrus.xyz'', AdminDone 1 None])) =
     ''bob@walrus.xyz'' \<and>
   admin_ids wallet_db ''bob@walrus.xyz'' = [2] \<and>
   currentAdminId (add_page (add_sys_step (add_sys_run demo_sys [WalletEmail ''bob@walrus.xyz'', AdminDone 1 None])
     (AdminDone 0 None))) = Some 1"
proof -
  let ?q = "add_sys_run demo_sys [WalletEmail ''bob@walrus.xyz'', AdminDone 1 None]"
  have h: "0 < length (admin_lookups ?q)" "admin_lookups ?q ! 0 \<noteq> emailAddress (add_page ?q)"
    "admin_ids (add_store ?q) (admin_lookups ?q ! 0) = 1 # []"
    by (simp_all add: demo_defs js_eval)
  have v: "admin_lookups ?q = [''admin@walrus.xyz'']" "emailAddress (add_page ?q) = ''bob@walrus.xyz''"
    "admin_ids wallet_db ''bob@walrus.xyz'' = [2]"
    by (simp_all add: demo_defs js_eval)
  show ?thesis using v stale_admin_reply_applied [OF h] by (simp add: Let_def)
qed

end
