(* ===== verification/Home.thy ===== *)
theory Home
  imports Store "HOL-Library.Multiset"
begin

text \<open>
  The home page, \<open>HomePage\<close> of \<^verbatim>\<open>src/app/page.tsx\<close>: the listing fetched in
  descending \<open>event_date\<close> order (lines 33-55), the admin lookup (lines
  57-79) and the EventDeleter \<open>handleDeleteEvent\<close> (lines 81-108), which
  deletes the photos of an event before the event itself and stops at the
  first error. Which store call fails is an input (\<open>store_env\<close>); the calls
  the handler makes are returned as a trace, so that "the event is never
  deleted after its photos failed" is a statement about that trace. The
  specification's state machine for the deleter (idle, deleting dependents,
  deleting parent, done, failed) is the inductive relation \<open>del_step\<close>; the
  handler refines it. The handler split at its \<open>await\<close>s
  (\<open>delete_start\<close>, \<open>delete_resume\<close>) is what the page model of
  \<open>HomeView\<close> interleaves; run without interleaving it is the handler.
\<close>

subsection \<open>State and handlers\<close>

record home_state =
  h_isLoading :: bool
  h_currentAdminId :: "int option"
  h_events :: "event_row list"
  h_error :: "string option"

datatype store_call = DeletePhotos nat | DeleteEvent nat

type_synonym store_env = "store_call \<Rightarrow> pg_error option"

definition init_home :: home_state where
  "init_home = \<lparr>h_isLoading = True, h_currentAdminId = None, h_events = [], h_error = None\<rparr>"

text \<open>\<open>select('*').order('event_date', {ascending: false})\<close>: the rows, latest string first.\<close>

definition list_events :: "db \<Rightarrow> event_row list" where
  "list_events d = rev (sort_key event_date (events d))"

text \<open>\<open>fetchEvents\<close> after its query (lines 43-51).\<close>

definition events_loaded :: "pg_error + event_row list \<Rightarrow> home_state \<Rightarrow> home_state" where
  "events_loaded r s =
     (case r of
        Inl e \<Rightarrow> s\<lparr>h_error := Some (err_code e), h_isLoading := False\<rparr>
      | Inr rows \<Rightarrow> s\<lparr>h_events := rows, h_isLoading := False\<rparr>)"

text \<open>\<open>fetchCurrentAdmin\<close> of the home page after its query (lines 67-75): no row leaves the id unset.\<close>

definition home_admin_loaded :: "pg_error + int list \<Rightarrow> home_state \<Rightarrow> home_state" where
  "home_admin_loaded r s =
     (case r of
        Inl e \<Rightarrow> s\<lparr>h_error := Some (err_code e), h_isLoading := False\<rparr>
      | Inr ids \<Rightarrow> (case ids of
                     [] \<Rightarrow> s\<lparr>h_isLoading := False\<rparr>
                   | i # _ \<Rightarrow> s\<lparr>h_currentAdminId := Some i, h_isLoading := False\<rparr>))"

text \<open>
  \<open>handleDeleteEvent(id)\<close> (lines 81-108): the new page state, the new store and
  the calls made, in order.
\<close>

definition handleDeleteEvent ::
  "store_env \<Rightarrow> nat \<Rightarrow> home_state \<Rightarrow> db \<Rightarrow> home_state \<times> db \<times> store_call list" where
  "handleDeleteEvent env eid s d =
     (case env (DeletePhotos eid) of
        Some e \<Rightarrow> (s\<lparr>h_error := Some (err_code e), h_isLoading := False\<rparr>, d, [DeletePhotos eid])
      | None \<Rightarrow>
          (let d1 = db_delete_photos d eid
           in case env (DeleteEvent eid) of
                Some e \<Rightarrow> (s\<lparr>h_error := Some (err_code e), h_isLoading := False\<rparr>, d1,
                           [DeletePhotos eid, DeleteEvent eid])
              | None \<Rightarrow> (s\<lparr>h_events := filter (\<lambda>ev. ev_id ev \<noteq> eid) (h_events s), h_isLoading := False\<rparr>,
                          db_delete_event d1 eid, [DeletePhotos eid, DeleteEvent eid])))"

text \<open>
  The two effects of the first render (lines 33-55 and 57-79) run
  concurrently; each sets \<open>isLoading\<close> on entry and clears it when its own
  query returns. Their replies, in either order, are \<open>home_effect\<close> events.
\<close>

datatype home_effect = EventsFetched "pg_error + event_row list" | AdminFetched "pg_error + int list"

fun home_step :: "home_state \<Rightarrow> home_effect \<Rightarrow> home_state" where
  "home_step s (EventsFetched r) = events_loaded r s"
| "home_step s (AdminFetched r) = home_admin_loaded r s"

text \<open>
  \<open>handleDeleteEvent\<close> as the event loop runs it: \<open>delete_start\<close> up to the
  first \<open>await\<close> (lines 81-88), \<open>delete_resume\<close> when a store call returns
  (lines 90-106). A deletion in flight is a \<open>del_task\<close>: the event's id, the
  \<open>events\<close> its closure captured from the render whose card was clicked, and
  the call it waits for. A failed call changes nothing in the store.
\<close>

datatype del_stage = AwaitPhotos | AwaitEvent

type_synonym del_task = "nat \<times> event_row list \<times> del_stage"

definition delete_start :: "nat \<Rightarrow> home_state \<Rightarrow> home_state \<times> del_task" where
  "delete_start eid s = (s\<lparr>h_isLoading := True\<rparr>, (eid, h_events s, AwaitPhotos))"

definition delete_resume ::
  "pg_error option \<Rightarrow> del_task \<Rightarrow> home_state \<Rightarrow> db \<Rightarrow> home_state \<times> db \<times> del_task option" where
  "delete_resume r t s d =
     (case t of (eid, evs, stage) \<Rightarrow>
        (case r of
           Some e \<Rightarrow> (s\<lparr>h_error := Some (err_code e), h_isLoading := False\<rparr>, d, None)
         | None \<Rightarrow>
             (case stage of
                AwaitPhotos \<Rightarrow> (s, db_delete_photos d eid, Some (eid, evs, AwaitEvent))
              | AwaitEvent \<Rightarrow> (s\<lparr>h_events := filter (\<lambda>ev. ev_id ev \<noteq> eid) evs, h_isLoading := False\<rparr>,
                              db_delete_event d eid, None))))"

subsection \<open>The deleter as a state machine (specification, section 4.6)\<close>

datatype del_phase = Idle | DeletingDependents | DeletingParent | Done | Failed

inductive del_step :: "nat \<Rightarrow> del_phase \<times> db \<Rightarrow> del_phase \<times> db \<Rightarrow> bool" for eid where
  start: "del_step eid (Idle, d) (DeletingDependents, d)"
| photos_ok: "del_step eid (DeletingDependents, d) (DeletingParent, db_delete_photos d eid)"
| photos_fail: "del_step eid (DeletingDependents, d) (Failed, d)"
| parent_ok: "del_step eid (DeletingParent, d) (Done, db_delete_event d eid)"
| parent_fail: "del_step eid (DeletingParent, d) (Failed, d)"

inductive_cases del_step_IdleE: "del_step eid (Idle, d) q"
inductive_cases del_step_DoneE: "del_step eid (Done, d) q"
inductive_cases del_step_FailedE: "del_step eid (Failed, d) q"

text \<open>
  What must hold in each phase: the event row is still there until the last
  step, and once the dependents are deleted none of its photos is left.
\<close>

definition has_event :: "db \<Rightarrow> nat \<Rightarrow> bool" where
  "has_event d eid \<longleftrightarrow> eid \<in> set (map ev_id (events d))"

definition no_photos_of :: "db \<Rightarrow> nat \<Rightarrow> bool" where
  "no_photos_of d eid \<longleftrightarrow> (\<forall>p\<in>set (photos d). photo_event p \<noteq> eid)"

definition del_inv :: "nat \<Rightarrow> db \<Rightarrow> del_phase \<times> db \<Rightarrow> bool" where
  "del_inv eid d0 q =
     (case q of
        (Idle, d) \<Rightarrow> d = d0
      | (DeletingDependents, d) \<Rightarrow> d = d0
      | (DeletingParent, d) \<Rightarrow> d = db_delete_photos d0 eid
      | (Done, d) \<Rightarrow> d = db_delete_event (db_delete_photos d0 eid) eid
      | (Failed, d) \<Rightarrow> d = d0 \<or> d = db_delete_photos d0 eid)"

declare init_home_def [js_eval] list_events_def [js_eval] events_loaded_def [js_eval]
  home_admin_loaded_def [js_eval] handleDeleteEvent_def [js_eval] delete_start_def [js_eval]
  delete_resume_def [js_eval]

subsection \<open>Lemmas\<close>

lemma del_inv_step:
  assumes "del_step eid q q'" and "del_inv eid d0 q"
  shows "del_inv eid d0 q'"
  using assms by (induction rule: del_step.induct) (auto simp: del_inv_def)

lemma del_inv_reach:
  assumes "(del_step eid)\<^sup>*\<^sup>* (Idle, d0) q"
  shows "del_inv eid d0 q"
  using assms
proof (induction rule: rtranclp_induct)
  case base
  then show ?case by (simp add: del_inv_def)
next
  case (step q q')
  then show ?case by (blast intro: del_inv_step)
qed

lemma has_event_delete_photos [simp]: "has_event (db_delete_photos d eid') eid = has_event d eid"
  by (simp add: has_event_def db_delete_photos_def)

lemma no_photos_delete_photos: "no_photos_of (db_delete_photos d eid) eid"
  by (simp add: no_photos_of_def db_delete_photos_def)

lemma no_photos_delete_event [simp]: "no_photos_of (db_delete_event d eid') eid = no_photos_of d eid"
  by (simp add: no_photos_of_def db_delete_event_def)

lemma ref_integrity_delete_both:
  "ref_integrity d \<Longrightarrow> ref_integrity (db_delete_event (db_delete_photos d eid) eid)"
  by (fastforce simp: ref_integrity_def db_delete_event_def db_delete_photos_def)

lemma handleDeleteEvent_cases:
  "(env (DeletePhotos eid) \<noteq> None \<and> handleDeleteEvent env eid s d =
      (s\<lparr>h_error := Some (err_code (the (env (DeletePhotos eid)))), h_isLoading := False\<rparr>, d, [DeletePhotos eid])) \<or>
   (env (DeletePhotos eid) = None \<and> env (DeleteEvent eid) \<noteq> None \<and> handleDeleteEvent env eid s d =
      (s\<lparr>h_error := Some (err_code (the (env (DeleteEvent eid)))), h_isLoading := False\<rparr>,
       db_delete_photos d eid, [DeletePhotos eid, DeleteEvent eid])) \<or>
   (env (DeletePhotos eid) = None \<and> env (DeleteEvent eid) = None \<and> handleDeleteEvent env eid s d =
      (s\<lparr>h_events := filter (\<lambda>ev. ev_id ev \<noteq> eid) (h_events s), h_isLoading := False\<rparr>,
       db_delete_event (db_delete_photos d eid) eid, [DeletePhotos eid, DeleteEvent eid]))"
  by (auto simp: handleDeleteEvent_def Let_def split: option.splits)

text \<open>
  Run without interleaving, the two halves are the handler: starting a
  deletion and resuming it with the store's answers to its calls gives the
  page and the store \<open>handleDeleteEvent\<close> gives.
\<close>

lemma delete_steps_handleDeleteEvent:
  "(let (s1, t) = delete_start eid s;
        (s2, d2, t2) = delete_resume (env (DeletePhotos eid)) t s1 d
    in case t2 of None \<Rightarrow> (s2, d2)
       | Some t' \<Rightarrow> (case delete_resume (env (DeleteEvent eid)) t' s2 d2 of (s3, d3, _) \<Rightarrow> (s3, d3))) =
   (fst (handleDeleteEvent env eid s d), fst (snd (handleDeleteEvent env eid s d)))"
  by (simp add: delete_start_def delete_resume_def handleDeleteEvent_def Let_def split: option.splits)

lemma ref_integrity_delete_event_no_photos:
  "ref_integrity d \<Longrightarrow> no_photos_of d eid \<Longrightarrow> ref_integrity (db_delete_event d eid)"
  by (fastforce simp: ref_integrity_def no_photos_of_def db_delete_event_def)

lemma no_photos_of_delete_photos_mono:
  "no_photos_of d eid \<Longrightarrow> no_photos_of (db_delete_photos d eid') eid"
  by (simp add: no_photos_of_def db_delete_photos_def)

text \<open>One answer to a call of a deletion in flight keeps the store's integrity and the tasks' invariant.\<close>

lemma integrity_delete_reply:
  assumes ri: "ref_integrity d" and ok: "\<forall>t\<in>set ts. snd (snd t) = AwaitEvent \<longrightarrow> no_photos_of d (fst t)"
    and i: "i < length ts" and res: "delete_resume r (ts ! i) s d = (s', d', ot)"
  shows "ref_integrity d' \<and>
         (\<forall>t\<in>set (case ot of None \<Rightarrow> remove_nth i ts | Some t' \<Rightarrow> ts[i := t']).
             snd (snd t) = AwaitEvent \<longrightarrow> no_photos_of d' (fst t))"
proof -
  obtain eid evs stage where ti: "ts ! i = (eid, evs, stage)" by (cases "ts ! i") auto
  have mem: "(eid, evs, stage) \<in> set ts" using i ti by (metis nth_mem)
  show ?thesis
  proof (cases r)
    case (Some e)
    with res ti have "d' = d" "ot = None" by (simp_all add: delete_resume_def)
    with ri ok set_remove_nth [of i ts] show ?thesis by auto
  next
    case None
    show ?thesis
    proof (cases stage)
      case AwaitPhotos
      with res ti None have d': "d' = db_delete_photos d eid" and ot: "ot = Some (eid, evs, AwaitEvent)"
        by (simp_all add: delete_resume_def)
      have "\<forall>t\<in>set (ts[i := (eid, evs, AwaitEvent)]). snd (snd t) = AwaitEvent \<longrightarrow> no_photos_of d' (fst t)"
      proof (intro ballI impI)
        fix t assume "t \<in> set (ts[i := (eid, evs, AwaitEvent)])" and aw: "snd (snd t) = AwaitEvent"
        then have "t = (eid, evs, AwaitEvent) \<or> t \<in> set ts" using set_update_subset_insert by fastforce
        then show "no_photos_of d' (fst t)"
        proof
          assume "t = (eid, evs, AwaitEvent)"
          then show ?thesis by (simp add: d' no_photos_delete_photos)
        next
          assume "t \<in> set ts"
          with ok aw have "no_photos_of d (fst t)" by blast
          then show ?thesis by (simp add: d' no_photos_of_delete_photos_mono)
        qed
      qed
      with ri d' ot show ?thesis by (simp add: ref_integrity_delete_photos)
    next
      case AwaitEvent
      with res ti None have d': "d' = db_delete_event d eid" and ot: "ot = None"
        by (simp_all add: delete_resume_def)
      have "no_photos_of d eid" using ok mem AwaitEvent by auto
      with ri have "ref_integrity d'" by (simp add: d' ref_integrity_delete_event_no_photos)
      with ok ot d' set_remove_nth [of i ts] show ?thesis by auto
    qed
  qed
qed

subsection \<open>Claims on the deleter and the listing\<close>

text \<open>
  C11: if deleting the photos of an event fails, the handler never asks the
  store to delete the event: the only call made is the photo delete, the
  store and the listing are unchanged, and the error is kept.
\<close>

theorem photos_failure_stops_delete:
  assumes "env (DeletePhotos eid) = Some e"
  shows "snd (snd (handleDeleteEvent env eid s d)) = [DeletePhotos eid] \<and>
         fst (snd (handleDeleteEvent env eid s d)) = d \<and>
         h_events (fst (handleDeleteEvent env eid s d)) = h_events s \<and>
         h_error (fst (handleDeleteEvent env eid s d)) = Some (err_code e)"
  using assms by (simp add: handleDeleteEvent_def)

theorem photos_failure_stops_delete_witness:
  "(\<lambda>c. if c = DeletePhotos 5 then Some (PgError ''42501'' ''denied'') else None) (DeletePhotos 5) =
     Some (PgError ''42501'' ''denied'') \<and>
   snd (snd (handleDeleteEvent (\<lambda>c. if c = DeletePhotos 5 then Some (PgError ''42501'' ''denied'') else None)
     5 init_home \<lparr>events = [], photos = [], admins = [], next_id = 6\<rparr>)) = [DeletePhotos 5]"
  using photos_failure_stops_delete [of "\<lambda>c. if c = DeletePhotos 5 then Some (PgError ''42501'' ''denied'') else None"
      5 "PgError ''42501'' ''denied''" init_home "\<lparr>events = [], photos = [], admins = [], next_id = 6\<rparr>"]
  by simp

text \<open>
  C14: when both deletes succeed, the photos go first and then the event: no
  photo of the event and no row with its id is left, every other event is
  kept, and the event leaves the listing on screen.
\<close>

theorem delete_success:
  assumes "env (DeletePhotos eid) = None" and "env (DeleteEvent eid) = None"
  shows "snd (snd (handleDeleteEvent env eid s d)) = [DeletePhotos eid, DeleteEvent eid] \<and>
         no_photos_of (fst (snd (handleDeleteEvent env eid s d))) eid \<and>
         events (fst (snd (handleDeleteEvent env eid s d))) = filter (\<lambda>ev. ev_id ev \<noteq> eid) (events d) \<and>
         h_events (fst (handleDeleteEvent env eid s d)) = filter (\<lambda>ev. ev_id ev \<noteq> eid) (h_events s)"
  using assms by (simp add: handleDeleteEvent_def no_photos_delete_photos db_delete_event_def db_delete_photos_def
                   no_photos_of_def)

theorem delete_success_witness:
  "(\<lambda>c::store_call. None :: pg_error option) (DeletePhotos 0) = None \<and> (\<lambda>c::store_call. None :: pg_error option) (DeleteEvent 0) = None \<and>
   events (fst (snd (handleDeleteEvent (\<lambda>c. None) 0 init_home
     \<lparr>events = [\<lparr>ev_id = 0, event_title = ''a'', event_slug = ''a'', admin_id = None, event_date = ''x''\<rparr>],
      photos = [\<lparr>photo_id = 0, photo_event = 0\<rparr>], admins = [], next_id = 1\<rparr>))) = []"
  using delete_success [of "\<lambda>c. None" 0 init_home
      "\<lparr>events = [\<lparr>ev_id = 0, event_title = ''a'', event_slug = ''a'', admin_id = None, event_date = ''x''\<rparr>],
        photos = [\<lparr>photo_id = 0, photo_event = 0\<rparr>], admins = [], next_id = 1\<rparr>"]
  by simp

text \<open>
  Whatever the store answers, a deletion never leaves a photo whose event
  is gone: referential integrity holds after the handler if it held before.
\<close>

theorem delete_keeps_ref_integrity:
  assumes "ref_integrity d"
  shows "ref_integrity (fst (snd (handleDeleteEvent env eid s d)))"
  using handleDeleteEvent_cases [of env eid s d] assms
  by (auto simp: ref_integrity_delete_photos ref_integrity_delete_both)

theorem delete_keeps_ref_integrity_witness:
  "ref_integrity \<lparr>events = [\<lparr>ev_id = 0, event_title = ''a'', event_slug = ''a'', admin_id = None, event_date = ''x''\<rparr>],
                  photos = [\<lparr>photo_id = 0, photo_event = 0\<rparr>], admins = [], next_id = 1\<rparr> \<and>
   ref_integrity (fst (snd (handleDeleteEvent (\<lambda>c. if c = DeleteEvent 0 then Some (PgError ''08006'' '''') else None) 0 init_home
     \<lparr>events = [\<lparr>ev_id = 0, event_title = ''a'', event_slug = ''a'', admin_id = None, event_date = ''x''\<rparr>],
      photos = [\<lparr>photo_id = 0, photo_event = 0\<rparr>], admins = [], next_id = 1\<rparr>)))"
proof -
  have h: "ref_integrity \<lparr>events = [\<lparr>ev_id = 0, event_title = ''a'', event_slug = ''a'', admin_id = None, event_date = ''x''\<rparr>],
                  photos = [\<lparr>photo_id = 0, photo_event = 0\<rparr>], admins = [], next_id = 1\<rparr>"
    by (simp add: ref_integrity_def)
  show ?thesis using h delete_keeps_ref_integrity [OF h] by simp
qed

text \<open>
  In every run of the deletion state machine from idle, the event row is
  present until the final step of a successful run, no photo of the event is
  left once the dependents are deleted, and referential integrity holds
  throughout.
\<close>

theorem del_machine_invariant:
  assumes "(del_step eid)\<^sup>*\<^sup>* (Idle, d0) (ph, d)" and "has_event d0 eid" and "ref_integrity d0"
  shows "(ph \<noteq> Done \<longrightarrow> has_event d eid) \<and>
         (ph = DeletingParent \<or> ph = Done \<longrightarrow> no_photos_of d eid) \<and> ref_integrity d"
proof -
  have inv: "del_inv eid d0 (ph, d)" using assms(1) by (rule del_inv_reach)
  show ?thesis
  proof (cases ph)
    case Done
    with inv assms(3) show ?thesis
      by (simp add: del_inv_def ref_integrity_delete_both no_photos_delete_photos)
  next
    case Failed
    with inv assms(2,3) show ?thesis
      by (auto simp: del_inv_def ref_integrity_delete_photos)
  qed (use inv assms(2,3) in \<open>auto simp: del_inv_def ref_integrity_delete_photos no_photos_delete_photos\<close>)
qed

theorem del_machine_invariant_witness:
  "(del_step 0)\<^sup>*\<^sup>* (Idle, \<lparr>events = [\<lparr>ev_id = 0, event_title = ''a'', event_slug = ''a'', admin_id = None, event_date = ''x''\<rparr>],
                             photos = [], admins = [], next_id = 1\<rparr>)
     (DeletingDependents, \<lparr>events = [\<lparr>ev_id = 0, event_title = ''a'', event_slug = ''a'', admin_id = None, event_date = ''x''\<rparr>],
                             photos = [], admins = [], next_id = 1\<rparr>) \<and>
   has_event \<lparr>events = [\<lparr>ev_id = 0, event_title = ''a'', event_slug = ''a'', admin_id = None, event_date = ''x''\<rparr>],
              photos = [], admins = [], next_id = 1\<rparr> 0"
proof -
  let ?d = "\<lparr>events = [\<lparr>ev_id = 0, event_title = ''a'', event_slug = ''a'', admin_id = None, event_date = ''x''\<rparr>],
             photos = [], admins = [], next_id = 1\<rparr>"
  have r: "(del_step 0)\<^sup>*\<^sup>* (Idle, ?d) (DeletingDependents, ?d)"
    by (rule r_into_rtranclp) (rule del_step.start)
  have h: "has_event ?d 0" by (simp add: has_event_def)
  have i: "ref_integrity ?d" by (simp add: ref_integrity_def)
  show ?thesis using r h del_machine_invariant [OF r h i] by simp
qed

text \<open>
  C13: the handler refines the specification's state machine: whatever the
  store answers, the store it leaves is that of a run from idle to done (both
  deletes succeeded) or to failed.
\<close>

theorem handleDeleteEvent_refines:
  "\<exists>ph. (ph = Done \<longleftrightarrow> env (DeletePhotos eid) = None \<and> env (DeleteEvent eid) = None) \<and>
        (ph = Done \<or> ph = Failed) \<and>
        (del_step eid)\<^sup>*\<^sup>* (Idle, d) (ph, fst (snd (handleDeleteEvent env eid s d)))"
proof -
  have s1: "(del_step eid)\<^sup>*\<^sup>* (Idle, d) (DeletingDependents, d)"
    by (rule r_into_rtranclp) (rule del_step.start)
  have s2: "(del_step eid)\<^sup>*\<^sup>* (Idle, d) (DeletingParent, db_delete_photos d eid)"
    using s1 by (rule rtranclp.rtrancl_into_rtrancl) (rule del_step.photos_ok)
  have f1: "(del_step eid)\<^sup>*\<^sup>* (Idle, d) (Failed, d)"
    using s1 by (rule rtranclp.rtrancl_into_rtrancl) (rule del_step.photos_fail)
  have f2: "(del_step eid)\<^sup>*\<^sup>* (Idle, d) (Failed, db_delete_photos d eid)"
    using s2 by (rule rtranclp.rtrancl_into_rtrancl) (rule del_step.parent_fail)
  have ok: "(del_step eid)\<^sup>*\<^sup>* (Idle, d) (Done, db_delete_event (db_delete_photos d eid) eid)"
    using s2 by (rule rtranclp.rtrancl_into_rtrancl) (rule del_step.parent_ok)
  show ?thesis
    using handleDeleteEvent_cases [of env eid s d] f1 f2 ok by auto
qed

text \<open>
  The listing the home page shows on success is every event of the
  store, in descending order of the stored \<open>event_date\<close> string.
\<close>

theorem list_events_sorted_desc:
  "sorted (rev (map event_date (list_events d))) \<and> mset (list_events d) = mset (events d)"
  by (simp add: list_events_def rev_map [symmetric])

end
