(* ===== verification/HomeView.thy ===== *)
theory HomeView
  imports Home
begin

text \<open>
  The home page as a whole, \<open>HomePage\<close> of \<^verbatim>\<open>src/app/page.tsx\<close>: what it
  renders (lines 110-164) and the page together with the store and the
  queries its effects have in flight. The effects' replies, a change of the
  wallet's email (which re-runs \<open>fetchCurrentAdmin\<close>, lines 57-79), a
  click on an event card's delete action and the store's answer to a call of
  a deletion in flight are events, in any order; \<open>home_sys_step\<close> applies
  one. Shown here: the store keeps referential integrity however deletions
  interleave; two deletions that overlap can put a deleted event back on the
  listing, because each one ends by setting the listing from the events its
  closure captured; a failed deletion hides the listing for the rest of the
  page's life behind the message for a failed fetch.
\<close>

subsection \<open>Rendering (lines 110-164)\<close>

text \<open>
  \<open>{isConnected && currentAdminId && (<>...</>)}\<close>: the links for admins.
  React renders nothing for \<open>false\<close> and \<open>null\<close>, but renders the number
  \<open>0\<close> as text.
\<close>

datatype admin_slot = NoLinks | AdminLinks | StrayZero

datatype home_body = FetchError | Cards "event_row list"

datatype home_view = HomeLoading | HomeMain admin_slot home_body

definition admin_links :: "bool \<Rightarrow> int option \<Rightarrow> admin_slot" where
  "admin_links conn aid =
     (if \<not> conn then NoLinks
      else case aid of None \<Rightarrow> NoLinks | Some i \<Rightarrow> (if i = 0 then StrayZero else AdminLinks))"

definition home_render :: "bool \<Rightarrow> home_state \<Rightarrow> home_view" where
  "home_render conn s =
     (if h_isLoading s then HomeLoading
      else HomeMain (admin_links conn (h_currentAdminId s))
                    (if h_error s \<noteq> None then FetchError else Cards (h_events s)))"

subsection \<open>The page, the store and the queries in flight\<close>

record home_sys =
  page :: home_state
  store :: db
  hs_connected :: bool
  hs_email :: string
  events_query :: bool
  admin_queries :: "string list"
  deletions :: "del_task list"

datatype home_event =
    EventsReply "pg_error option"
  | AdminReply nat "pg_error option"
  | EmailChanged string
  | DeleteClicked nat
  | DeleteReply nat "pg_error option"

text \<open>The first render: both effects have issued their query.\<close>

definition home_init :: "bool \<Rightarrow> string \<Rightarrow> db \<Rightarrow> home_sys" where
  "home_init conn email st =
     \<lparr>page = init_home, store = st, hs_connected = conn, hs_email = email,
      events_query = True, admin_queries = [email], deletions = []\<rparr>"

definition shown_cards :: "home_sys \<Rightarrow> event_row list" where
  "shown_cards q = (case home_render (hs_connected q) (page q) of HomeMain a (Cards rows) \<Rightarrow> rows | _ \<Rightarrow> [])"

fun home_sys_step :: "home_sys \<Rightarrow> home_event \<Rightarrow> home_sys" where
  "home_sys_step q (EventsReply net) =
     (if events_query q
      then q\<lparr>page := home_step (page q) (EventsFetched (case net of Some e \<Rightarrow> Inl e
                                                                | None \<Rightarrow> Inr (list_events (store q)))),
             events_query := False\<rparr>
      else q)"
| "home_sys_step q (AdminReply i net) =
     (if i < length (admin_queries q)
      then q\<lparr>page := home_step (page q) (AdminFetched (case net of Some e \<Rightarrow> Inl e
                                                           | None \<Rightarrow> Inr (admin_ids (store q) (admin_queries q ! i)))),
             admin_queries := remove_nth i (admin_queries q)\<rparr>
      else q)"
| "home_sys_step q (EmailChanged em) =
     (if em = hs_email q then q
      else q\<lparr>hs_email := em, page := (page q)\<lparr>h_isLoading := True\<rparr>,
             admin_queries := admin_queries q @ [em]\<rparr>)"
| "home_sys_step q (DeleteClicked eid) =
     (if eid \<in> set (map ev_id (shown_cards q))
      then (case delete_start eid (page q) of
              (s', t) \<Rightarrow> q\<lparr>page := s', deletions := deletions q @ [t]\<rparr>)
      else q)"
| "home_sys_step q (DeleteReply i r) =
     (if i < length (deletions q)
      then (case delete_resume r (deletions q ! i) (page q) (store q) of
              (s', st', None) \<Rightarrow> q\<lparr>page := s', store := st', deletions := remove_nth i (deletions q)\<rparr>
            | (s', st', Some t) \<Rightarrow> q\<lparr>page := s', store := st', deletions := (deletions q)[i := t]\<rparr>)
      else q)"

definition home_run :: "home_sys \<Rightarrow> home_event list \<Rightarrow> home_sys" where
  "home_run q es = foldl home_sys_step q es"

inductive home_reachable :: "home_sys \<Rightarrow> bool" where
  init: "ref_integrity st \<Longrightarrow> home_reachable (home_init conn email st)"
| step: "home_reachable q \<Longrightarrow> home_reachable (home_sys_step q e)"

definition listing_hidden :: "home_sys \<Rightarrow> bool" where
  "listing_hidden q \<longleftrightarrow> (\<exists>a. home_render (hs_connected q) (page q) \<in> {HomeLoading, HomeMain a FetchError})"

text \<open>An example store: one event with one photo, and one admin.\<close>

definition home_demo_db :: db where
  "home_demo_db =
     \<lparr>events = [\<lparr>ev_id = 0, event_title = ''foox'', event_slug = ''foox'', admin_id = Some 1,
                  event_date = ''Fri Mar 1 2024 19:05:00 -05:00''\<rparr>],
      photos = [\<lparr>photo_id = 0, photo_event = 0\<rparr>], admins = [(''ann@walrus.xyz'', 1)], next_id = 1\<rparr>"

text \<open>A store with two events, and the run in which their deletions overlap.\<close>

definition race_db :: db where
  "race_db =
     \<lparr>events = [\<lparr>ev_id = 0, event_title = ''foox'', event_slug = ''foox'', admin_id = Some 1,
                  event_date = ''Fri Mar 1 2024 19:05:00 -05:00''\<rparr>,
                \<lparr>ev_id = 1, event_title = ''party'', event_slug = ''party'', admin_id = Some 1,
                  event_date = ''Sat Mar 2 2024 19:05:00 -05:00''\<rparr>],
      photos = [\<lparr>photo_id = 0, photo_event = 0\<rparr>, \<lparr>photo_id = 1, photo_event = 1\<rparr>],
      admins = [(''ann@walrus.xyz'', 1)], next_id = 2\<rparr>"

definition trace_overlap :: "home_event list" where
  "trace_overlap =
     [EventsReply None, DeleteClicked 0, AdminReply 0 None, DeleteClicked 1,
      DeleteReply 0 None, DeleteReply 0 None, DeleteReply 0 None, DeleteReply 0 None]"

definition del_tasks_ok :: "home_sys \<Rightarrow> bool" where
  "del_tasks_ok q \<longleftrightarrow> (\<forall>t\<in>set (deletions q). snd (snd t) = AwaitEvent \<longrightarrow> no_photos_of (store q) (fst t))"

declare admin_links_def [js_eval] home_render_def [js_eval] home_init_def [js_eval]
  shown_cards_def [js_eval] home_run_def [js_eval]

subsection \<open>Lemmas\<close>

lemma home_run_Cons: "home_run q (e # es) = home_run (home_sys_step q e) es"
  by (simp add: home_run_def)

lemma events_loaded_error: "h_error s \<noteq> None \<Longrightarrow> h_error (events_loaded r s) \<noteq> None"
  by (auto simp: events_loaded_def split: sum.splits)

lemma home_admin_loaded_error: "h_error s \<noteq> None \<Longrightarrow> h_error (home_admin_loaded r s) \<noteq> None"
  by (auto simp: home_admin_loaded_def split: sum.splits list.splits)

lemma delete_start_error [simp]: "h_error (fst (delete_start eid s)) = h_error s"
  by (simp add: delete_start_def)

lemma delete_resume_error:
  "h_error s \<noteq> None \<Longrightarrow> h_error (fst (delete_resume r t s d)) \<noteq> None"
  by (auto simp: delete_resume_def split: prod.splits option.splits del_stage.splits)

lemma delete_resume_failed_error:
  "r \<noteq> None \<Longrightarrow> h_error (fst (delete_resume r t s d)) \<noteq> None"
  by (auto simp: delete_resume_def split: prod.splits option.splits)

text \<open>Once set, the page's error is never cleared: no handler of the page resets it.\<close>

lemma home_sys_step_error:
  assumes "h_error (page q) \<noteq> None"
  shows "h_error (page (home_sys_step q e)) \<noteq> None"
proof (cases e)
  case (DeleteClicked eid)
  with assms show ?thesis by (auto simp: delete_start_def)
next
  case (DeleteReply i r)
  with assms delete_resume_error [OF assms, of r "deletions q ! i" "store q"] show ?thesis
    by (auto split: prod.splits option.splits)
qed (simp_all del: not_None_eq add: events_loaded_error [OF assms] home_admin_loaded_error [OF assms] assms)

lemma home_run_error:
  "h_error (page q) \<noteq> None \<Longrightarrow> h_error (page (home_run q es)) \<noteq> None"
proof (induction es arbitrary: q)
  case Nil
  then show ?case by (simp add: home_run_def)
next
  case (Cons e es)
  have "h_error (page (home_sys_step q e)) \<noteq> None" using Cons.prems by (rule home_sys_step_error)
  then show ?case by (simp add: home_run_Cons Cons.IH)
qed

lemma home_reachable_run: "home_reachable q \<Longrightarrow> home_reachable (home_run q es)"
proof (induction es arbitrary: q)
  case Nil
  then show ?case by (simp add: home_run_def)
next
  case (Cons e es)
  from Cons.prems have "home_reachable (home_sys_step q e)" by (rule home_reachable.step)
  then show ?case by (simp add: home_run_Cons Cons.IH)
qed

lemma events_pending_empty:
  assumes "home_reachable q"
  shows "events_query q \<longrightarrow> h_events (page q) = [] \<and> deletions q = []"
  using assms
proof (induction rule: home_reachable.induct)
  case (init st conn email)
  then show ?case by (simp add: home_init_def init_home_def)
next
  case (step q e)
  show ?case
  proof (cases e)
    case (AdminReply i net)
    with step.IH show ?thesis by (auto simp: home_admin_loaded_def split: sum.splits list.splits)
  next
    case (DeleteClicked eid)
    with step.IH show ?thesis by (auto simp: shown_cards_def home_render_def delete_start_def)
  qed (use step.IH in \<open>auto split: prod.splits option.splits\<close>)
qed

lemma error_hides_listing: "h_error (page q) \<noteq> None \<Longrightarrow> listing_hidden q"
  by (auto simp: listing_hidden_def home_render_def)

text \<open>
  C20: however deletions interleave with each other and with the effects'
  replies, the store never holds a photo whose event is gone: each deletion
  deletes its event only after its own photos are gone, and a failed call
  changes nothing.
\<close>

theorem home_store_integrity:
  assumes "home_reachable q"
  shows "ref_integrity (store q) \<and> del_tasks_ok q"
  using assms
proof (induction rule: home_reachable.induct)
  case (init st conn email)
  then show ?case by (simp add: home_init_def del_tasks_ok_def)
next
  case (step q e)
  show ?case
  proof (cases e)
    case (DeleteClicked eid)
    with step.IH show ?thesis by (auto simp: del_tasks_ok_def delete_start_def)
  next
    case (DeleteReply i r)
    show ?thesis
    proof (cases "i < length (deletions q)")
      case True
      obtain s' d' ot where res: "delete_resume r (deletions q ! i) (page q) (store q) = (s', d', ot)"
        by (cases "delete_resume r (deletions q ! i) (page q) (store q)") auto
      from integrity_delete_reply [OF _ _ True res] step.IH
      have "ref_integrity d' \<and>
            (\<forall>t\<in>set (case ot of None \<Rightarrow> remove_nth i (deletions q) | Some t' \<Rightarrow> (deletions q)[i := t']).
               snd (snd t) = AwaitEvent \<longrightarrow> no_photos_of d' (fst t))"
        by (simp add: del_tasks_ok_def)
      with DeleteReply True res show ?thesis
        by (cases ot) (simp_all add: del_tasks_ok_def)
    next
      case False
      with DeleteReply step.IH show ?thesis by simp
    qed
  qed (use step.IH in \<open>simp_all add: del_tasks_ok_def\<close>)
qed

theorem home_store_integrity_witness:
  "home_reachable (home_run (home_init True ''ann@walrus.xyz'' race_db) trace_overlap) \<and>
   ref_integrity (store (home_run (home_init True ''ann@walrus.xyz'' race_db) trace_overlap))"
proof -
  have i: "ref_integrity race_db" by (simp add: ref_integrity_def race_db_def)
  have h: "home_reachable (home_run (home_init True ''ann@walrus.xyz'' race_db) trace_overlap)"
    using i by (intro home_reachable_run home_reachable.init)
  show ?thesis using h home_store_integrity [OF h] by simp
qed

text \<open>
  C23: a deletion finishing sets the listing from the events its closure
  captured when its card was clicked, so when deletions overlap it puts back
  every event that another deletion removed meanwhile: the event is on the
  listing again, the loading screen is gone, and the store does not hold it.
\<close>

theorem overlapping_deletes_resurrect_event:
  assumes "i < length (deletions q)" and "deletions q ! i = (eid, evs, AwaitEvent)"
    and "ev \<in> set evs" and "ev_id ev \<noteq> eid" and "ev \<notin> set (events (store q))"
    and "h_error (page q) = None"
  shows "ev \<in> set (h_events (page (home_sys_step q (DeleteReply i None)))) \<and>
         \<not> h_isLoading (page (home_sys_step q (DeleteReply i None))) \<and>
         h_error (page (home_sys_step q (DeleteReply i None))) = None \<and>
         ev \<notin> set (events (store (home_sys_step q (DeleteReply i None))))"
  using assms by (simp add: delete_resume_def db_delete_event_def)

theorem overlapping_deletes_resurrect_event_witness:
  "deletions (home_run (home_init True ''ann@walrus.xyz'' race_db) (butlast trace_overlap)) =
     [(1, [\<lparr>ev_id = 1, event_title = ''party'', event_slug = ''party'', admin_id = Some 1,
             event_date = ''Sat Mar 2 2024 19:05:00 -05:00''\<rparr>,
           \<lparr>ev_id = 0, event_title = ''foox'', event_slug = ''foox'', admin_id = Some 1,
             event_date = ''Fri Mar 1 2024 19:05:00 -05:00''\<rparr>], AwaitEvent)] \<and>
   \<lparr>ev_id = 0, event_title = ''foox'', event_slug = ''foox'', admin_id = Some 1,
      event_date = ''Fri Mar 1 2024 19:05:00 -05:00''\<rparr> \<in>
     set (h_events (page (home_sys_step (home_run (home_init True ''ann@walrus.xyz'' race_db) (butlast trace_overlap))
                                        (DeleteReply 0 None)))) \<and>
   events (store (home_sys_step (home_run (home_init True ''ann@walrus.xyz'' race_db) (butlast trace_overlap))
                                (DeleteReply 0 None))) = []"
proof -
  let ?q = "home_run (home_init True ''ann@walrus.xyz'' race_db) (butlast trace_overlap)"
  let ?ev = "\<lparr>ev_id = 0, event_title = ''foox'', event_slug = ''foox'', admin_id = Some 1,
             event_date = ''Fri Mar 1 2024 19:05:00 -05:00''\<rparr>"
  let ?evs = "[\<lparr>ev_id = 1, event_title = ''party'', event_slug = ''party'', admin_id = Some 1,
             event_date = ''Sat Mar 2 2024 19:05:00 -05:00''\<rparr>, ?ev]"
  have d: "deletions ?q = [(1, ?evs, AwaitEvent)]"
    by (simp add: trace_overlap_def race_db_def js_eval home_run_def)
  have h: "0 < length (deletions ?q)" "deletions ?q ! 0 = (1, ?evs, AwaitEvent)" "?ev \<in> set ?evs" "ev_id ?ev \<noteq> 1"
    by (simp_all only: d) simp_all
  have h2: "?ev \<notin> set (events (store ?q))" "h_error (page ?q) = None"
    by (simp_all add: trace_overlap_def race_db_def js_eval home_run_def)
  have e: "events (store (home_sys_step ?q (DeleteReply 0 None))) = []"
    by (simp add: trace_overlap_def race_db_def js_eval home_run_def)
  note o = overlapping_deletes_resurrect_event [OF h h2]
  show ?thesis by (intro conjI d e conjunct1 [OF o])
qed

text \<open>
  C27: both effects clear the one \<open>isLoading\<close> flag: in every reachable
  state with the events query still in flight, the admin query's reply
  takes the page off the loading screen to an empty listing, the events
  query still pending.
\<close>

theorem home_renders_before_events:
  assumes "home_reachable q" and "events_query q" and "i < length (admin_queries q)"
    and "h_error (page q) = None"
  shows "\<exists>a. home_render (hs_connected q) (page (home_sys_step q (AdminReply i None))) = HomeMain a (Cards []) \<and>
         events_query (home_sys_step q (AdminReply i None))"
proof -
  have "h_events (page q) = []" using events_pending_empty [OF assms(1)] assms(2) by simp
  with assms(2-4) show ?thesis
    by (auto simp: home_render_def home_admin_loaded_def split: list.splits)
qed

theorem home_renders_before_events_witness:
  "home_reachable (home_init True ''ann@walrus.xyz'' race_db) \<and>
   home_render True (page (home_sys_step (home_init True ''ann@walrus.xyz'' race_db) (AdminReply 0 None))) =
     HomeMain AdminLinks (Cards []) \<and>
   events (store (home_init True ''ann@walrus.xyz'' race_db)) \<noteq> []"
proof -
  have i: "ref_integrity race_db" by (simp add: ref_integrity_def race_db_def)
  have r: "home_reachable (home_init True ''ann@walrus.xyz'' race_db)" using i by (rule home_reachable.init)
  have h: "events_query (home_init True ''ann@walrus.xyz'' race_db)"
    "0 < length (admin_queries (home_init True ''ann@walrus.xyz'' race_db))"
    "h_error (page (home_init True ''ann@walrus.xyz'' race_db)) = None"
    by (simp_all add: home_init_def init_home_def)
  have v: "home_render True (page (home_sys_step (home_init True ''ann@walrus.xyz'' race_db) (AdminReply 0 None))) =
     HomeMain AdminLinks (Cards [])" "events (store (home_init True ''ann@walrus.xyz'' race_db)) \<noteq> []"
    by (simp_all add: home_init_def init_home_def race_db_def js_eval home_admin_loaded_def)
  show ?thesis using r v home_renders_before_events [OF r h] by simp
qed

text \<open>
  C30: a failed deletion hides the listing for the rest of the page's life:
  when the store fails either call of a deletion in flight, the page shows
  the message for a failed fetch ("Oops! There was an error fetching
  events") or the loading screen, and never again an event card, whatever
  happens next.
\<close>

theorem delete_failure_hides_listing:
  assumes "i < length (deletions q)" and "r \<noteq> None"
  shows "listing_hidden (home_run (home_sys_step q (DeleteReply i r)) es)"
proof -
  have "h_error (page (home_sys_step q (DeleteReply i r))) \<noteq> None"
    using assms delete_resume_failed_error [OF assms(2), of "deletions q ! i" "page q" "store q"]
    by (auto split: prod.splits option.splits)
  then show ?thesis by (intro error_hides_listing home_run_error)
qed

theorem delete_failure_hides_listing_witness:
  "listing_hidden (home_run (home_sys_step (home_run (home_init True ''ann@walrus.xyz'' race_db)
                                              [EventsReply None, DeleteClicked 0])
                              (DeleteReply 0 (Some (PgError ''42501'' ''permission denied''))))
                   [EventsReply None, EmailChanged ''bob@walrus.xyz'', AdminReply 0 None])"
proof -
  have i: "0 < length (deletions (home_run (home_init True ''ann@walrus.xyz'' race_db)
                                   [EventsReply None, DeleteClicked 0]))"
    by (simp add: js_eval race_db_def)
  have r: "Some (PgError ''42501'' ''permission denied'') \<noteq> None" by simp
  show ?thesis using delete_failure_hides_listing [OF i r] .
qed

end
