(* ===== verification/Spec2Isabelle.thy ===== *)
theory Spec2Isabelle
  imports Submit HomeView
begin

text \<open>
  \<^bold>\<open>Walrus Photo Booth: the event-creation engine and the event deleter.\<close>

  The repository is a Next.js client with two pages that talk to a Supabase
  store. \<^verbatim>\<open>src/app/addEvent/page.tsx\<close> holds the event-creation form: it
  derives a URL slug from the title, checks the title against the store after
  a 500 ms delay, enables its submit button from a validity predicate, and on
  submit composes a timestamp string and inserts the event, translating
  unique-constraint errors into messages. \<^verbatim>\<open>src/app/page.tsx\<close> lists the
  events and deletes an event together with its photos.
  \<^verbatim>\<open>src/app/layout.tsx\<close> is fonts and markup and is not modelled.

  \<^bold>\<open>Theories and what they model.\<close>
  \<^item> \<open>Prelude\<close>: the JavaScript string primitives the code calls
    (\<open>toLowerCase\<close>, \<open>trim\<close>, the regex class \<open>\s\<close>, \<open>padStart\<close>,
    \<open>parseInt\<close>, \<open>includes\<close>, number rendering) on the Latin-1 range, the
    \<open>js_eval\<close> and \<open>js_class\<close> collections, and the shared lemmas
    (trim and lower-case commute, \<open>parseInt\<close> reads back \<open>toString\<close>, a
    substring without \<open>c\<close> lies on one side of every \<open>c\<close>).
  \<^item> \<open>Slug\<close>: \<open>generateSlug\<close> (page.tsx lines 211-218) as the composition of
    its five replacements; \<open>replace_runs\<close> is a \<^theory_text>\<open>function\<close> with a
    length measure.
  \<^item> \<open>TimeCompose\<close>: the timestamp of \<open>onSubmit\<close> (lines 326-343) over a
    \<open>cal_date\<close> record with a day-count weekday, and the clock-derived
    defaults of the form (lines 177-196); a reference count of days since
    1970-01-01 by plain summation (\<open>civil_days_ref\<close>) that the closed form
    \<open>days_from_civil\<close> is proved equal to.
  \<^item> \<open>Schema\<close>: \<open>FormData\<close>, the option lists and the zod \<open>EventSchema\<close>
    (lines 50-136), checks on the raw value followed by trim and lower-case;
    issues are \<open>Inl\<close>, the transformed data \<open>Inr\<close>.
  \<^item> \<open>Store\<close>: the Supabase tables as a record of lists, from the
    specification's contract (section 6): inserts enforce unique titles and
    slugs and report a violation as code 23505 with a detail naming the
    column; deletes are row filters with no cascade.
  \<^item> \<open>AddEvent\<close>: the page's React and form state as one record
    (\<open>add_state\<close>); one definition per handler (\<open>watch_title\<close>,
    \<open>watch_other\<close>, \<open>check_fire\<close>, \<open>check_reply\<close>, \<open>onSubmit\<close>,
    \<open>handle_submit\<close>, \<open>admin_loaded\<close>); \<open>page_step\<close> applies an event
    (a field edit, a re-render, time passing, a timer firing, a store reply
    in any order, a click, another client's insert) to the page and the
    store; \<open>reachable_page\<close> is the inductive set of states reachable from
    the first render. \<open>watch_cb\<close> is the watch callback as \<open>watch\<close> runs
    it, re-entered by its own \<open>form.setValue\<close>, a \<^theory_text>\<open>partial_function\<close>
    whose result \<open>None\<close> would be a callback that never returns;
    \<open>add_render\<close> is what the page renders (loading screen, wallet prompt,
    or the form with its error line and the button's state). \<open>drain\<close> is
    the environment's schedule that lets
    every pending timer fire and answers every probe; \<open>event_row_typed\<close> is
    the shape of a row the page writes.
  \<^item> \<open>Submit\<close>: the add-event page with its requests in flight:
    \<open>onSubmit\<close> split at the \<open>await\<close> of its insert (\<open>submit_start\<close>,
    \<open>submit_resume\<close>, behind \<open>handle_submit_start\<close> and
    \<open>handle_submit_resume\<close> of \<open>form.handleSubmit\<close>) and
    \<open>fetchCurrentAdmin\<close> split at its query; \<open>add_sys\<close> holds the page, the
    store, the inserts in flight and the admin queries in flight (one per
    change of the wallet's email), and
    \<open>add_sys_step\<close> applies a page event of \<open>AddEvent\<close>, a click, or a reply,
    in any order, so that timers, probe replies and other clients' inserts
    run while the insert is in flight and the insert meets the store as it
    is when the request arrives. \<open>split_events\<close> maps the atomic page's
    events to the split page's, each reply right after its request.
  \<^item> \<open>Home\<close>: the listing, the home page's admin lookup and
    \<open>handleDeleteEvent\<close>, with the store's failures as an input and the calls
    made as a trace; the specification's deleter state machine as the
    inductive \<open>del_step\<close>, which the handler refines; \<open>home_step\<close> applies
    either effect's completion (\<open>fetchEvents\<close>, \<open>fetchCurrentAdmin\<close>) in
    either order, which shows the shared \<open>isLoading\<close> flag cleared before
    the events arrive.
  \<^item> \<open>HomeView\<close>: the home page as a whole: its render (lines 110-164) as a
    \<open>home_view\<close> (loading screen, admin links with React's rendering of
    \<open>0\<close>, fetch-error message or event cards), and \<open>home_sys\<close>, the page with
    the store, the queries and the deletions in flight, stepped by
    \<open>home_sys_step\<close> on the effects' replies, a change of the wallet email, a
    delete click on a shown card and the store's answer to a call of a
    deletion, in any order; a deletion runs as \<open>delete_start\<close> and
    \<open>delete_resume\<close> of \<open>Home\<close>, \<open>handleDeleteEvent\<close> split at its awaits;
    \<open>home_reachable\<close> is the reachable set.

  \<^bold>\<open>What is shown.\<close> The slug pipeline is idempotent and every non-empty
  slug passes the slug schema; the stored hour is n or n + 12; the gate never
  enables the button with a field empty or a check outstanding, in any
  interleaving; the store is written only by an enabled click of a valid form
  whose title is not known to be taken; a single probe reports the store
  correctly and a failed probe keeps the button disabled; conflict
  translation on every branch; every row a click writes has a fresh id, a
  non-empty slug over \<open>[a-z0-9-]\<close> and a trimmed lower-case title; after any
  run with no failed probe, the environment's events alone (time passing,
  timers, replies) settle the checker with nothing pending; the deleter never
  deletes the event after its photos failed, and refines the specification's
  state machine; however deletions interleave, the store never holds a photo
  whose event is gone; while an insert is in flight the page shows its
  loading screen and ignores clicks, so at most one insert is in flight;
  every insert reply ends the loading, with exactly the requested row stored
  and the page left, or with the store unchanged and the error line on the
  form, which covers a title taken by another client between the check and
  the insert.

  Lemmas that tie the models to one another and to the runtime, used by the
  claims but not claims themselves: the store keeps titles and slugs unique
  in every reachable state (\<open>reachable_store_unique\<close>, which holds because
  \<open>db_insert_event\<close> checks both columns); the watch callback returns on every
  field and state although it re-enters itself (\<open>watch_cb_returns\<close>); the
  atomic page is the split page whose replies arrive at once
  (\<open>atomic_page_is_split_page\<close>), so what is proved of \<open>page_step\<close> is proved
  of that schedule; the closed-form day count of the JavaScript \<open>Date\<close>
  runtime equals a plain summation (\<open>civil_days_equiv\<close>).

  \<^bold>\<open>What the models show wrong.\<close> Each as a theorem over every state or
  input where it applies, with a concrete instance: a probe reply is applied
  whatever the title now is (no supersession check); every keystroke within
  the 500 ms window issues its own query (the returned \<open>clearTimeout\<close> is
  never called); in every reachable state the watch closure's stale
  \<open>titleExists\<close> lets an edit of another field enable the button for a taken
  title; 12 PM is stored as hour 24; the default offset is cut to whole
  hours; every blank title is accepted and stored empty; every taken title
  containing "event_slug" is reported as a taken slug; for any two dates the
  listing follows the weekday's name, not time; a failed probe leaves the
  check outstanding, with nothing pending, until the title is edited again;
  a failed deletion hides the whole listing behind the message for a failed
  fetch; a deletion's last step puts back an event another deletion removed
  (it sets the listing from the events its closure captured); a failed admin
  lookup shows an empty error line and lets the page store events without an
  owner; an admin query's reply during a submission puts the form back on
  screen, usable, with the insert in flight; a reply for a previous wallet's
  email sets that email's admin id, which the next insert carries (no
  supersession check in \<open>fetchCurrentAdmin\<close>); the home page's admin reply
  clears the shared loading flag and shows an empty listing while the
  events query is in flight.

  \<^bold>\<open>Bounds, approximations and what is not modelled.\<close> No fuel is
  needed: every function terminates structurally or by a length measure,
  and asynchrony is explicit as events. The settling schedule \<open>drain\<close> is
  computed from the state: one tick as long as the sum of the timers' due
  times, one firing per timer, and one reply per timer and per probe in
  flight, which is enough because each firing adds at most one probe.
  Approximations, each stated where it is defined: characters are Latin-1
  code points (case mapping and white space beyond Latin-1 are out of
  scope); \<open>list_events\<close> orders by code points where PostgreSQL orders text
  by the database's collation (on two timestamps the page writes with
  different weekdays the two orders agree, since the names are capitalised
  and differ in their first or second letter); \<open>parseInt\<close>'s hexadecimal prefix is not modelled
  (the code parses only "1".."12"); react-hook-form's \<open>formState\<close> snapshot
  is refreshed by an explicit \<open>Rerender\<close> event the environment may deliver
  at any time, so the theorems hold for every render timing but
  react-hook-form's own revalidation rules are not modelled; an edit may set
  any value, so the slug input's \<open>onKeyDown\<close> that blocks a typed space
  (lines 463-467) is over-approximated; in \<open>AddEvent\<close> the guard of
  \<open>AdminLoaded\<close> on \<open>isLoading\<close> stands for the mount query only, and the
  reruns on a wallet change are the \<open>add_sys\<close> model of \<open>Submit\<close>; the
  uniqueness of titles and slugs is the specification's database contract,
  not code of the repository; \<open>home_sys\<close> changes the wallet's email but
  has no separate connect and disconnect events (a disconnect is an email
  change as far as the page's effects go). Markup, routing, the wallet and
  the photo booth pages are not modelled, nor \<^verbatim>\<open>src/app/layout.tsx\<close>
  (fonts and markup). \<open>EventCard\<close> (the card's delete action and who may
  use it) is in \<^verbatim>\<open>components/\<close>, outside the sources: a delete click is
  modelled on any card the page shows.

  Not modelled either, because they are markup or library code with no
  decision of the page in them: the imports and the Supabase client
  (lines 1-48 of the add-event page), the form field widgets (the
  \<open>Select\<close>, \<open>Popover\<close> and \<open>Calendar\<close> markup of lines 426-635, whose
  effect on the state is \<open>set_field\<close> and \<open>PickDate\<close>), \<open>console.log\<close>
  calls, and \<open>router.push\<close>, modelled as the flag \<open>navigated\<close>.

  \<^bold>\<open>Plan for the next steps.\<close> react-hook-form's revalidation and dirty
  tracking in more detail (which fields \<open>isDirty\<close> compares, per-field
  errors after a submit); the wallet's connect and disconnect as events of
  both pages.
\<close>

subsection \<open>Properties across components\<close>

text \<open>
  End to end: on the example store, typing the free title "party",
  waiting for its check and clicking Create stores one new event with the
  derived slug, the composed timestamp and the admin's id, the page navigates
  away, and the home page lists the new event first.
\<close>

theorem create_event_end_to_end:
  "events (snd (page_step (page_run demo_page trace_create) (Click None))) =
     events demo_db @ [\<lparr>ev_id = 1, event_title = ''party'', event_slug = ''party'', admin_id = Some 1,
                         event_date = ''Fri Mar 8 2024 19:05:00 -05:00''\<rparr>] \<and>
   navigated (fst (page_step (page_run demo_page trace_create) (Click None))) \<and>
   map event_title (list_events (snd (page_step (page_run demo_page trace_create) (Click None)))) =
     [''party'', ''foox'']"
  by (simp add: demo_defs js_eval)

lemma append_less_same_length:
  "length xs = length xs' \<Longrightarrow> xs < xs' \<Longrightarrow> xs @ ys < xs' @ (zs :: 'a::linorder list)"
proof (induction xs arbitrary: xs')
  case Nil
  then show ?case by simp
next
  case (Cons x xs)
  then obtain x' xs1 where xs': "xs' = x' # xs1" by (cases xs') auto
  with Cons show ?case by auto
qed

text \<open>
  C22: the listing is ordered by weekday name, not by time: for any two
  events stored with onSubmit's timestamp, whatever their dates, times and
  zones and in whichever order they were inserted, the one whose weekday
  name sorts later is listed first; so Saturday 2 March 2024 is listed
  before Friday 8 March 2024.
\<close>

theorem listing_not_chronological:
  assumes "event_date ra = formatted_date da ha ma aa za" and "event_date rb = formatted_date db hb mb ab zb"
    and "weekday_short db < weekday_short da"
  shows "list_events (st\<lparr>events := [ra, rb]\<rparr>) = [ra, rb] \<and> list_events (st\<lparr>events := [rb, ra]\<rparr>) = [ra, rb]"
proof -
  have "event_date rb < event_date ra"
    using append_less_same_length [OF _ assms(3)] weekday_short_length assms(1,2)
    by (simp add: formatted_date_def)
  then show ?thesis by (auto simp: list_events_def)
qed

theorem listing_not_chronological_witness:
  "days_from_civil \<lparr>year = 2024, month = 3, day = 2\<rparr> < days_from_civil \<lparr>year = 2024, month = 3, day = 8\<rparr> \<and>
   weekday_short \<lparr>year = 2024, month = 3, day = 8\<rparr> < weekday_short \<lparr>year = 2024, month = 3, day = 2\<rparr> \<and>
   map event_title (list_events
     \<lparr>events = [\<lparr>ev_id = 0, event_title = ''early'', event_slug = ''early'', admin_id = Some 1,
                  event_date = formatted_date \<lparr>year = 2024, month = 3, day = 2\<rparr> ''7'' ''05'' ''PM'' ''-05:00''\<rparr>,
                \<lparr>ev_id = 1, event_title = ''late'', event_slug = ''late'', admin_id = Some 1,
                  event_date = formatted_date \<lparr>year = 2024, month = 3, day = 8\<rparr> ''7'' ''05'' ''PM'' ''-05:00''\<rparr>],
      photos = [], admins = [], next_id = 2\<rparr>) = [''early'', ''late'']"
proof -
  have w: "weekday_short \<lparr>year = 2024, month = 3, day = 8\<rparr> < weekday_short \<lparr>year = 2024, month = 3, day = 2\<rparr>"
    by (simp add: js_eval)
  have d: "days_from_civil \<lparr>year = 2024, month = 3, day = 2\<rparr> < days_from_civil \<lparr>year = 2024, month = 3, day = 8\<rparr>"
    by (simp add: js_eval)
  note l = listing_not_chronological [where ra = "\<lparr>ev_id = 0, event_title = ''early'', event_slug = ''early'', admin_id = Some 1,
                  event_date = formatted_date \<lparr>year = 2024, month = 3, day = 2\<rparr> ''7'' ''05'' ''PM'' ''-05:00''\<rparr>"
      and rb = "\<lparr>ev_id = 1, event_title = ''late'', event_slug = ''late'', admin_id = Some 1,
                  event_date = formatted_date \<lparr>year = 2024, month = 3, day = 8\<rparr> ''7'' ''05'' ''PM'' ''-05:00''\<rparr>"
      and st = "\<lparr>events = [], photos = [], admins = [], next_id = 2\<rparr>", OF _ _ w]
  show ?thesis using w d conjunct1 [OF l] by simp
qed

text \<open>
  The two pages disagree on a wallet whose email has no admin row: the
  add-event page takes admin id 0, the value onSubmit passes as admin_id, the home page
  leaves the id unset.
\<close>

theorem admin_lookup_pages_disagree:
  "currentAdminId (admin_loaded (Inr []) s) = Some 0 \<and>
   h_currentAdminId (home_admin_loaded (Inr []) init_home) = None"
  by (simp add: admin_loaded_def home_admin_loaded_def init_home_def)

end
